theory Spec2Isabelle
  imports Complex_Main "HOL-Library.Word"
begin

section \<open>Python values\<close>

text \<open>
  A Python \<open>str\<close> is a sequence of Unicode code points, so it is modelled as a list of
  natural numbers; \<open>py\<close> turns an ASCII literal into such a string.  \<open>bytes\<close> is a list
  of octets.
\<close>

type_synonym pystr = "nat list"

type_synonym bytes = "8 word list"

definition py :: "string \<Rightarrow> pystr" where
  "py s = map of_char s"

text \<open>
  \<open>str.isspace\<close> on one code point; the regular-expression class \<open>\s\<close> on \<open>str\<close> patterns
  and \<open>str.strip()\<close> use the same set.
\<close>

definition isspace :: "nat \<Rightarrow> bool" where
  "isspace c \<longleftrightarrow>
     (9 \<le> c \<and> c \<le> 13) \<or> (28 \<le> c \<and> c \<le> 32) \<or> c = 133 \<or> c = 160 \<or> c = 5760 \<or>
     (8192 \<le> c \<and> c \<le> 8202) \<or> c = 8232 \<or> c = 8233 \<or> c = 8239 \<or> c = 8287 \<or> c = 12288"

definition strip :: "pystr \<Rightarrow> pystr" where
  "strip s = rev (dropWhile isspace (rev (dropWhile isspace s)))"

section \<open>Emotion tags: \<open>extract_emotion_and_text\<close>\<close>

text \<open>
  One attempt to match \<open>emotion_pattern = r'\[([^\]]+)\]'\<close> at the start of the text:
  an opening bracket, the longest run of characters other than the closing bracket
  (at least one), then the closing bracket.  The result is the group and the text after
  the match.  A shorter run is followed by a character that is not a closing bracket,
  so backtracking never finds another match.
\<close>

definition match_emotion :: "pystr \<Rightarrow> (pystr \<times> pystr) option" where
  "match_emotion s =
     (case s of
        [] \<Rightarrow> None
      | c # cs \<Rightarrow>
          if c = 91 then
            (let body = takeWhile (\<lambda>x. x \<noteq> 93) cs;
                 rest = dropWhile (\<lambda>x. x \<noteq> 93) cs
             in if body \<noteq> [] \<and> rest \<noteq> [] then Some (body, tl rest) else None)
          else None)"

lemma match_emotion_shorter:
  "match_emotion s = Some (b, r) \<Longrightarrow> length r < length s"
proof -
  assume m: "match_emotion s = Some (b, r)"
  then obtain c cs where s: "s = c # cs"
    by (cases s) (auto simp: match_emotion_def)
  from m s have r: "r = tl (dropWhile (\<lambda>x. x \<noteq> 93) cs)"
    by (auto simp: match_emotion_def Let_def split: if_splits)
  have "length (dropWhile (\<lambda>x. x \<noteq> 93) cs) \<le> length cs"
    by (rule length_dropWhile_le)
  with r s show ?thesis by simp
qed

text \<open>\<open>re.findall(emotion_pattern, text)\<close>: the groups of the non-overlapping matches, left to right.\<close>

function findall_emotion :: "pystr \<Rightarrow> pystr list" where
  "findall_emotion [] = []"
| "findall_emotion (c # cs) =
     (case match_emotion (c # cs) of
        Some (body, rest) \<Rightarrow> body # findall_emotion rest
      | None \<Rightarrow> findall_emotion cs)"
  by pat_completeness auto
termination
  by (relation "measure length") (auto dest: match_emotion_shorter)

text \<open>\<open>re.sub(emotion_pattern, '', text)\<close>: the text with every match deleted.\<close>

function sub_emotion :: "pystr \<Rightarrow> pystr" where
  "sub_emotion [] = []"
| "sub_emotion (c # cs) =
     (case match_emotion (c # cs) of
        Some (body, rest) \<Rightarrow> sub_emotion rest
      | None \<Rightarrow> c # sub_emotion cs)"
  by pat_completeness auto
termination
  by (relation "measure length") (auto dest: match_emotion_shorter)

text \<open>\<open>re.sub(r'\s+', ' ', text)\<close>: every maximal run of whitespace becomes one space.\<close>

function sub_spaces :: "pystr \<Rightarrow> pystr" where
  "sub_spaces [] = []"
| "sub_spaces (c # cs) =
     (if isspace c then 32 # sub_spaces (dropWhile isspace cs) else c # sub_spaces cs)"
  by pat_completeness auto
termination
  by (relation "measure length") (auto simp: length_dropWhile_le less_Suc_eq_le)

definition extract_emotion_and_text :: "pystr \<Rightarrow> pystr list \<times> pystr" where
  "extract_emotion_and_text text =
     (let emotions = findall_emotion text;
          cleaned_text = sub_emotion text;
          cleaned_text = strip (sub_spaces cleaned_text)
      in (emotions, cleaned_text))"


section \<open>Account rotation\<close>

datatype exn = ZeroDivisionError | IndexError | KeyError | LibraryError

record account =
  email :: pystr
  password :: pystr

text \<open>
  What the program does to the outside world, in order: the sign-in request with the
  account's e-mail and password, \<open>time.sleep\<close> with its seconds, the text-to-dialogue
  request (attempt number, bearer token, text, voice, stability) and the fallback
  \<open>client.text_to_speech.convert\<close> call (voice, text, stability, similarity boost, style,
  speaker boost).
\<close>

datatype event =
    FirebasePost pystr pystr
  | Sleep nat
  | TtsPost nat pystr pystr pystr real
  | FallbackConvert pystr pystr real real real bool

text \<open>The module's global variables, together with the effects performed so far.\<close>

record globals =
  accounts :: "account list"
  current_account_index :: nat
  tts_request_count :: nat
  current_token :: "pystr option"
  effects :: "event list"

definition initial_globals :: "account list \<Rightarrow> globals" where
  "initial_globals accs =
     \<lparr>accounts = accs, current_account_index = 0, tts_request_count = 0,
      current_token = None, effects = []\<rparr>"

text \<open>Python's truth value of an optional string: \<open>None\<close> and \<open>''\<close> are false.\<close>

definition truthy :: "'a list option \<Rightarrow> bool" where
  "truthy v = (case v of None \<Rightarrow> False | Some s \<Rightarrow> s \<noteq> [])"

definition get_current_account :: "globals \<Rightarrow> exn + account option" where
  "get_current_account g =
     (if accounts g = [] then Inr None
      else if current_account_index g < length (accounts g)
        then Inr (Some (accounts g ! current_account_index g))
        else Inl IndexError)"

text \<open>
  \<open>rotate_account\<close>: the modulus raises on an empty pool; otherwise the new index is in
  range, so reading the account for the message cannot fail.
\<close>

definition rotate_account :: "globals \<Rightarrow> exn + globals" where
  "rotate_account g =
     (if length (accounts g) = 0 then Inl ZeroDivisionError
      else Inr (g\<lparr>current_account_index :=
                     (current_account_index g + 1) mod length (accounts g),
                   tts_request_count := 0,
                   current_token := None\<rparr>))"

definition should_rotate_account :: "globals \<Rightarrow> bool" where
  "should_rotate_account g \<longleftrightarrow> tts_request_count g \<ge> 2"

definition increment_tts_count :: "globals \<Rightarrow> globals" where
  "increment_tts_count g = g\<lparr>tts_request_count := tts_request_count g + 1\<rparr>"

definition perform :: "event \<Rightarrow> globals \<Rightarrow> globals" where
  "perform ev g = g\<lparr>effects := effects g @ [ev]\<rparr>"

section \<open>The identity service: \<open>get_firebase_token\<close>\<close>

text \<open>
  The answer to one sign-in request: a response with its status code and the
  \<open>idToken\<close> field of its body (when it has one), or a \<open>RequestException\<close>.  The answer
  to one text-to-dialogue request: a response with its status code and the chunks of
  its streamed body, or a \<open>RequestException\<close> raised by the request or while streaming.
\<close>

datatype auth_response = AuthResponse nat "pystr option" | AuthRequestException

datatype tts_response = TtsResponse nat "bytes list" | TtsRequestException

text \<open>
  The environment of one dialogue segment: the \<open>FIREBASE_API_KEY\<close> variable, the answers
  of the two services by attempt number, the outcome of the fallback call (its audio,
  or the exception it raises), and the outcome of writing the audio to the segment file
  and loading it with \<open>AudioSegment.from_mp3\<close> (the clip's length in ms, or the exception).
\<close>

record env =
  firebase_api_key :: "pystr option"
  auth_reply :: "nat \<Rightarrow> auth_response"
  tts_reply :: "nat \<Rightarrow> tts_response"
  fallback_reply :: "exn + bytes"
  from_mp3 :: "bytes \<Rightarrow> exn + nat"

text \<open>
  The retry loop of \<open>get_firebase_token\<close> over \<open>range(max_retries)\<close>, with
  \<open>max_retries = 3\<close> and \<open>retry_delay = 3\<close>.  A 200 response without \<open>idToken\<close> raises
  \<open>KeyError\<close>, which the function does not catch.
\<close>

fun firebase_attempts :: "env \<Rightarrow> account \<Rightarrow> nat list \<Rightarrow> globals \<Rightarrow> (exn + pystr option) \<times> globals" where
  "firebase_attempts env acc [] g = (Inr None, g)"
| "firebase_attempts env acc (attempt # rest) g =
     (let g1 = perform (FirebasePost (email acc) (password acc)) g;
          g2 = (if attempt < 3 - 1 then perform (Sleep 3) g1 else g1)
      in case auth_reply env attempt of
           AuthRequestException \<Rightarrow> firebase_attempts env acc rest g2
         | AuthResponse status_code id_token \<Rightarrow>
             if status_code = 200 then
               (case id_token of
                  None \<Rightarrow> (Inl KeyError, g1)
                | Some token \<Rightarrow> (Inr (Some token), g1\<lparr>current_token := Some token\<rparr>))
             else firebase_attempts env acc rest g2)"

definition get_firebase_token :: "env \<Rightarrow> globals \<Rightarrow> (exn + pystr option) \<times> globals" where
  "get_firebase_token env g =
     (if truthy (current_token g) then (Inr (current_token g), g)
      else case get_current_account g of
             Inl e \<Rightarrow> (Inl e, g)
           | Inr None \<Rightarrow> (Inr None, g)
           | Inr (Some acc) \<Rightarrow>
               if \<not> truthy (firebase_api_key env) then (Inr None, g)
               else firebase_attempts env acc [0..<3] g)"

section \<open>The synthesis service: \<open>text_to_speech_v3\<close>\<close>

text \<open>The stability setting computed from the emotions (\<open>None\<close> is the parameter's default).\<close>

definition tts_stability :: "pystr list option \<Rightarrow> real" where
  "tts_stability emotions =
     (if truthy emotions then
        (if list_ex (\<lambda>emotion. emotion \<in> set [py ''excited'', py ''dramatic'', py ''nervous''])
              (case emotions of Some es \<Rightarrow> es | None \<Rightarrow> [])
         then 0
         else if list_ex (\<lambda>emotion. emotion \<in> set [py ''whispers'', py ''serious'', py ''thoughtful''])
              (case emotions of Some es \<Rightarrow> es | None \<Rightarrow> [])
         then 1
         else 1 / 2)
      else 1 / 2)"

text \<open>
  The retry loop of \<open>text_to_speech_v3\<close> over \<open>range(max_retries)\<close>, with
  \<open>max_retries = 5\<close> and \<open>retry_delay = 15\<close>.  On status 200 the non-empty chunks are
  concatenated and returned.
\<close>

fun tts_attempts :: "env \<Rightarrow> pystr \<Rightarrow> pystr \<Rightarrow> pystr \<Rightarrow> real \<Rightarrow> nat list \<Rightarrow> globals \<Rightarrow> bytes option \<times> globals" where
  "tts_attempts env token text voice_id stability [] g = (None, g)"
| "tts_attempts env token text voice_id stability (attempt # rest) g =
     (let g1 = perform (TtsPost attempt token text voice_id stability) g;
          g2 = (if attempt < 5 - 1 then perform (Sleep 15) g1 else g1)
      in case tts_reply env attempt of
           TtsRequestException \<Rightarrow> tts_attempts env token text voice_id stability rest g2
         | TtsResponse status_code chunks \<Rightarrow>
             if status_code = 200
             then (Some (concat (filter (\<lambda>chunk. chunk \<noteq> []) chunks)), g1)
             else tts_attempts env token text voice_id stability rest g2)"

definition text_to_speech_v3 :: "env \<Rightarrow> pystr \<Rightarrow> pystr \<Rightarrow> pystr list option \<Rightarrow> globals \<Rightarrow> (exn + bytes option) \<times> globals" where
  "text_to_speech_v3 env text voice_id emotions g =
     (case (if should_rotate_account g then rotate_account g else Inr g) of
        Inl e \<Rightarrow> (Inl e, g)
      | Inr g1 \<Rightarrow>
          (case get_firebase_token env g1 of
             (Inl e, g2) \<Rightarrow> (Inl e, g2)
           | (Inr None, g2) \<Rightarrow> (Inr None, g2)
           | (Inr (Some token), g2) \<Rightarrow>
               if token = [] then (Inr None, g2)
               else
                 (let stability = tts_stability emotions;
                      g3 = increment_tts_count g2;
                      (audio_bytes, g4) = tts_attempts env token text voice_id stability [0..<5] g3
                  in (Inr audio_bytes, g4))))"


section \<open>Mixing: \<open>create_and_mix_audio\<close>\<close>

text \<open>
  \<open>VOICE_MAPPING\<close>, keyed by the three Korean speaker names (given by their code points).
\<close>

definition VOICE_MAPPING :: "pystr \<Rightarrow> pystr option" where
  "VOICE_MAPPING =
     map_of [([51652, 54665, 51088], py ''mgugV8tLa3KQE4mfYTw5''),
             ([45224, 51088, 44172, 49828, 53944], py ''K3qo7ugXmpT87FDhLBbN''),
             ([50668, 51088, 44172, 49828, 53944], py ''KlstlYt9VVf3zgie2Oht'')]"

record segment =
  seg_type :: pystr
  speaker :: pystr
  seg_text :: pystr
  start_time :: int

record script =
  title :: pystr
  segments :: "segment list"

text \<open>A loaded \<open>AudioSegment\<close>: its data and its length in milliseconds.\<close>

record speech =
  audio :: bytes
  duration_ms :: nat

text \<open>
  The state of the loop: the module's globals, \<open>previous_end_time\<close>, and \<open>final_podcast\<close>
  as the overlays made on the silent canvas so far, each with its position.
\<close>

record mixer =
  glob :: globals
  previous_end_time :: int
  final_podcast :: "(int \<times> speech) list"

text \<open>The three statements that place a clip: adjust the start, overlay, move the end.\<close>

definition place_speech :: "int \<Rightarrow> speech \<Rightarrow> mixer \<Rightarrow> mixer" where
  "place_speech start_time_ms speech_segment m =
     (let adjusted_start_time = max start_time_ms (previous_end_time m + 500)
      in m\<lparr>final_podcast := final_podcast m @ [(adjusted_start_time, speech_segment)],
           previous_end_time := adjusted_start_time + int (duration_ms speech_segment)\<rparr>)"

text \<open>The fallback call with its fixed voice settings; its stream is joined into bytes.\<close>

definition fallback_convert :: "env \<Rightarrow> pystr \<Rightarrow> pystr \<Rightarrow> globals \<Rightarrow> (exn + bytes) \<times> globals" where
  "fallback_convert env voice_id text g =
     (fallback_reply env, perform (FallbackConvert voice_id text (1 / 2) (3 / 4) 0 True) g)"

text \<open>
  The body of the loop for one segment.  Every exception raised inside the \<open>try\<close> block
  is caught: the segment is left out and the loop goes on.
\<close>

definition process_segment :: "env \<Rightarrow> segment \<Rightarrow> mixer \<Rightarrow> mixer" where
  "process_segment env segment m =
     (let start_time_ms = start_time segment * 1000 in
      if seg_type segment = py ''dialogue'' then
        (let (emotions, cleaned_text) = extract_emotion_and_text (seg_text segment) in
         case VOICE_MAPPING (speaker segment) of
           None \<Rightarrow> m
         | Some voice_id \<Rightarrow>
             if voice_id = [] then m
             else
               (case text_to_speech_v3 env cleaned_text voice_id (Some emotions) (glob m) of
                  (Inl e, g1) \<Rightarrow> m\<lparr>glob := g1\<rparr>
                | (Inr audio_bytes, g1) \<Rightarrow>
                    (case (if truthy audio_bytes
                           then (Inr (case audio_bytes of Some b \<Rightarrow> b | None \<Rightarrow> []), g1)
                           else fallback_convert env voice_id cleaned_text g1) of
                       (Inl e, g2) \<Rightarrow> m\<lparr>glob := g2\<rparr>
                     | (Inr audio_bytes, g2) \<Rightarrow>
                         (case from_mp3 env audio_bytes of
                            Inl e \<Rightarrow> m\<lparr>glob := g2\<rparr>
                          | Inr n \<Rightarrow>
                              place_speech start_time_ms
                                \<lparr>audio = audio_bytes, duration_ms = n\<rparr> (m\<lparr>glob := g2\<rparr>)))))
      else m)"

text \<open>The loop over \<open>enumerate(script["segments"])\<close>; segment \<open>i\<close> meets the environment \<open>envs i\<close>.\<close>

fun mix_segments :: "(nat \<Rightarrow> env) \<Rightarrow> nat \<Rightarrow> segment list \<Rightarrow> mixer \<Rightarrow> mixer" where
  "mix_segments envs i [] m = m"
| "mix_segments envs i (segment # rest) m =
     mix_segments envs (Suc i) rest (process_segment (envs i) segment m)"

definition initial_mixer :: "globals \<Rightarrow> mixer" where
  "initial_mixer g = \<lparr>glob = g, previous_end_time = 0, final_podcast = []\<rparr>"

text \<open>
  \<open>create_and_mix_audio\<close> up to the export: nothing is done without a script or when the
  ElevenLabs client cannot be created.
\<close>

definition create_and_mix_audio :: "(nat \<Rightarrow> env) \<Rightarrow> exn + unit \<Rightarrow> script option \<Rightarrow> globals \<Rightarrow> mixer option" where
  "create_and_mix_audio envs client scr g =
     (case scr of
        None \<Rightarrow> None
      | Some sc \<Rightarrow>
          (case client of
             Inl e \<Rightarrow> None
           | Inr u \<Rightarrow> Some (mix_segments envs 0 (segments sc) (initial_mixer g))))"

section \<open>The specification's reading of the parser\<close>

text \<open>
  The parser as the specification words it.  A scan cuts the text into markers and plain
  characters: at an opening bracket that has a closing bracket after it, the marker is
  the text up to the first closing bracket (the non-greedy match).  The markers are the
  result's first part; the plain characters, with runs of whitespace collapsed and the
  ends trimmed, are the second.
\<close>

datatype piece = Marker pystr | Plain nat

lemma length_dropWhile_pred_le: "length (dropWhile P cs) - Suc 0 \<le> length cs"
  using length_dropWhile_le [of P cs] by simp

function spec_scan :: "pystr \<Rightarrow> piece list" where
  "spec_scan [] = []"
| "spec_scan (c # cs) =
     (if c = 91 \<and> 93 \<in> set cs
      then Marker (takeWhile (\<lambda>x. x \<noteq> 93) cs) # spec_scan (tl (dropWhile (\<lambda>x. x \<noteq> 93) cs))
      else Plain c # spec_scan cs)"
  by pat_completeness auto
termination
  by (relation "measure length") (auto simp: less_Suc_eq_le length_dropWhile_pred_le)

text \<open>The same scan when only a non-empty bracketed text counts as a marker.\<close>

function spec_scan_nonempty :: "pystr \<Rightarrow> piece list" where
  "spec_scan_nonempty [] = []"
| "spec_scan_nonempty (c # cs) =
     (if c = 91 \<and> 93 \<in> set cs \<and> takeWhile (\<lambda>x. x \<noteq> 93) cs \<noteq> []
      then Marker (takeWhile (\<lambda>x. x \<noteq> 93) cs) # spec_scan_nonempty (tl (dropWhile (\<lambda>x. x \<noteq> 93) cs))
      else Plain c # spec_scan_nonempty cs)"
  by pat_completeness auto
termination
  by (relation "measure length") (auto simp: less_Suc_eq_le length_dropWhile_pred_le)

fun markers_of :: "piece list \<Rightarrow> pystr list" where
  "markers_of [] = []"
| "markers_of (Marker m # ps) = m # markers_of ps"
| "markers_of (Plain c # ps) = markers_of ps"

fun plain_of :: "piece list \<Rightarrow> pystr" where
  "plain_of [] = []"
| "plain_of (Marker m # ps) = plain_of ps"
| "plain_of (Plain c # ps) = c # plain_of ps"

text \<open>
  Collapsing whitespace, one character at a time: a whitespace character becomes a space
  when the character before it was not whitespace, and disappears otherwise.
\<close>

fun spec_collapse :: "bool \<Rightarrow> pystr \<Rightarrow> pystr" where
  "spec_collapse after_space [] = []"
| "spec_collapse after_space (c # cs) =
     (if isspace c
      then (if after_space then spec_collapse True cs else 32 # spec_collapse True cs)
      else c # spec_collapse False cs)"

definition spec_parse :: "pystr \<Rightarrow> pystr list \<times> pystr" where
  "spec_parse raw =
     (markers_of (spec_scan raw), strip (spec_collapse False (plain_of (spec_scan raw))))"

definition spec_parse_nonempty :: "pystr \<Rightarrow> pystr list \<times> pystr" where
  "spec_parse_nonempty raw =
     (markers_of (spec_scan_nonempty raw),
      strip (spec_collapse False (plain_of (spec_scan_nonempty raw))))"

text \<open>A text contains a marker when some opening bracket starts a match of the pattern.\<close>

fun has_marker :: "pystr \<Rightarrow> bool" where
  "has_marker [] = False"
| "has_marker (c # cs) =
     (if c = 91 \<and> 93 \<in> set cs \<and> takeWhile (\<lambda>x. x \<noteq> 93) cs \<noteq> [] then True else has_marker cs)"


section \<open>Sequences of synthesis calls\<close>

text \<open>
  A synthesis call issues a request when it reaches its retry loop; the first attempt of
  every such call is logged with attempt number 0, so the requests issued so far are the
  first attempts in the effects.
\<close>

fun is_first_post :: "event \<Rightarrow> bool" where
  "is_first_post (TtsPost attempt token text voice_id stability) = (attempt = 0)"
| "is_first_post (FirebasePost e p) = False"
| "is_first_post (Sleep n) = False"
| "is_first_post (FallbackConvert v t a b c d) = False"

definition requests :: "globals \<Rightarrow> nat" where
  "requests g = length (filter is_first_post (effects g))"

text \<open>One call after the other, each with its own environment and arguments.\<close>

type_synonym call = "env \<times> pystr \<times> pystr \<times> pystr list option"

fun tts_calls :: "call list \<Rightarrow> globals \<Rightarrow> (exn + bytes option) list \<times> globals" where
  "tts_calls [] g = ([], g)"
| "tts_calls ((env, text, voice_id, emotions) # rest) g =
     (let (r, g1) = text_to_speech_v3 env text voice_id emotions g;
          (rs, g2) = tts_calls rest g1
      in (r # rs, g2))"

text \<open>A call is successful when it returns audio; an answer fails when it is not a 200 response.\<close>

fun returned_audio :: "exn + bytes option \<Rightarrow> bool" where
  "returned_audio (Inr (Some a)) = True"
| "returned_audio (Inr None) = False"
| "returned_audio (Inl e) = False"

fun tts_failed :: "tts_response \<Rightarrow> bool" where
  "tts_failed TtsRequestException = True"
| "tts_failed (TtsResponse status_code chunks) = (status_code \<noteq> 200)"

section \<open>The rotation invariant and example inputs\<close>

text \<open>
  What holds of the globals after any number of synthesis calls: the counter is at most 2
  and counts requests, the requests not counted by it came in pairs, one pair per
  rotation, and the index is the number of rotations modulo the pool size.
\<close>

definition rotation_inv :: "globals \<Rightarrow> bool" where
  "rotation_inv g \<longleftrightarrow>
     accounts g \<noteq> [] \<and> tts_request_count g \<le> 2 \<and> tts_request_count g \<le> requests g \<and>
     even (requests g + tts_request_count g) \<and>
     current_account_index g =
       ((requests g - tts_request_count g) div 2) mod length (accounts g)"

text \<open>Environments, accounts and a call used to evaluate the model on concrete inputs.\<close>

definition ok_env :: env where
  "ok_env =
     \<lparr>firebase_api_key = Some (py ''key''),
      auth_reply = (\<lambda>attempt. AuthResponse 200 (Some (py ''token''))),
      tts_reply = (\<lambda>attempt. TtsResponse 200 [[1, 2], [], [3]]),
      fallback_reply = Inl LibraryError,
      from_mp3 = (\<lambda>b. Inr 1000)\<rparr>"

definition failing_env :: env where
  "failing_env =
     \<lparr>firebase_api_key = Some (py ''key''),
      auth_reply = (\<lambda>attempt. if attempt = 0 then AuthRequestException
                               else AuthResponse 200 (Some (py ''token''))),
      tts_reply = (\<lambda>attempt. if attempt = 2 then TtsRequestException else TtsResponse 500 []),
      fallback_reply = Inl LibraryError,
      from_mp3 = (\<lambda>b. Inr 1000)\<rparr>"

definition no_auth_env :: env where
  "no_auth_env =
     \<lparr>firebase_api_key = Some (py ''key''),
      auth_reply = (\<lambda>attempt. AuthResponse 403 None),
      tts_reply = (\<lambda>attempt. TtsResponse 200 [[1]]),
      fallback_reply = Inr [7, 7],
      from_mp3 = (\<lambda>b. Inr 1000)\<rparr>"

definition three_accounts :: "account list" where
  "three_accounts =
     [\<lparr>email = py ''a@x'', password = py ''pa''\<rparr>,
      \<lparr>email = py ''b@x'', password = py ''pb''\<rparr>,
      \<lparr>email = py ''c@x'', password = py ''pc''\<rparr>]"

definition ok_call :: call where
  "ok_call = (ok_env, py ''hi'', py ''voice'', None)"

text \<open>
  Globals with a cached token, the counter at the threshold and the index at the last account.
\<close>

definition cached_globals :: globals where
  "cached_globals =
     \<lparr>accounts = three_accounts, current_account_index = 2, tts_request_count = 2,
      current_token = Some (py ''old''), effects = []\<rparr>"

text \<open>
  What holds of the timeline after any number of segments: \<open>previous_end_time\<close> is 0
  before the first clip and the end of the last clip afterwards, every clip starts at
  least 500 ms after the end of the clip before it, and no clip starts before 500 ms.
\<close>

definition timeline_ok :: "mixer \<Rightarrow> bool" where
  "timeline_ok m \<longleftrightarrow>
     (final_podcast m = [] \<longrightarrow> previous_end_time m = 0) \<and>
     (final_podcast m \<noteq> [] \<longrightarrow>
        previous_end_time m =
          fst (last (final_podcast m)) + int (duration_ms (snd (last (final_podcast m))))) \<and>
     (\<forall>n. 0 < n \<and> n < length (final_podcast m) \<longrightarrow>
        fst (final_podcast m ! (n - 1)) + int (duration_ms (snd (final_podcast m ! (n - 1)))) + 500
          \<le> fst (final_podcast m ! n)) \<and>
     (\<forall>ps\<in>set (final_podcast m). 500 \<le> fst ps)"

text \<open>
  A speaker of \<open>VOICE_MAPPING\<close>, a script with a segment of an unknown speaker between two
  of the host's, one segment, and the globals after a call whose five attempts failed.
\<close>

definition host :: pystr where
  "host = [51652, 54665, 51088]"

definition example_script :: script where
  "example_script =
     \<lparr>title = py ''demo show'',
      segments =
        [\<lparr>seg_type = py ''dialogue'', speaker = host, seg_text = py ''[excited] hello'', start_time = 0\<rparr>,
         \<lparr>seg_type = py ''dialogue'', speaker = py ''AI'', seg_text = py ''[confident] hi'', start_time = 8\<rparr>,
         \<lparr>seg_type = py ''dialogue'', speaker = host, seg_text = py ''bye  now'', start_time = 1\<rparr>]\<rparr>"

definition host_segment :: segment where
  "host_segment =
     \<lparr>seg_type = py ''dialogue'', speaker = host, seg_text = py ''[excited] hello'', start_time = 0\<rparr>"

definition failed_globals :: globals where
  "failed_globals =
     \<lparr>accounts = three_accounts, current_account_index = 0, tts_request_count = 1,
      current_token = Some (py ''token''),
      effects =
        [FirebasePost (py ''a@x'') (py ''pa''), Sleep 3, FirebasePost (py ''a@x'') (py ''pa''),
         TtsPost 0 (py ''token'') (py ''hello'') (py ''mgugV8tLa3KQE4mfYTw5'') 0, Sleep 15,
         TtsPost 1 (py ''token'') (py ''hello'') (py ''mgugV8tLa3KQE4mfYTw5'') 0, Sleep 15,
         TtsPost 2 (py ''token'') (py ''hello'') (py ''mgugV8tLa3KQE4mfYTw5'') 0, Sleep 15,
         TtsPost 3 (py ''token'') (py ''hello'') (py ''mgugV8tLa3KQE4mfYTw5'') 0, Sleep 15,
         TtsPost 4 (py ''token'') (py ''hello'') (py ''mgugV8tLa3KQE4mfYTw5'') 0]\<rparr>"

section \<open>The parser\<close>

lemma match_emotion_Cons:
  "match_emotion (c # cs) =
     (if c = 91 \<and> 93 \<in> set cs \<and> takeWhile (\<lambda>x. x \<noteq> 93) cs \<noteq> []
      then Some (takeWhile (\<lambda>x. x \<noteq> 93) cs, tl (dropWhile (\<lambda>x. x \<noteq> 93) cs))
      else None)"
  by (auto simp: match_emotion_def Let_def dropWhile_eq_Nil_conv)

lemma findall_emotion_spec: "findall_emotion s = markers_of (spec_scan_nonempty s)"
  by (induction s rule: spec_scan_nonempty.induct) (simp_all add: match_emotion_Cons)

lemma sub_emotion_spec: "sub_emotion s = plain_of (spec_scan_nonempty s)"
  by (induction s rule: spec_scan_nonempty.induct) (simp_all add: match_emotion_Cons)

lemma sub_spaces_spec:
  "spec_collapse False s = sub_spaces s \<and> spec_collapse True s = sub_spaces (dropWhile isspace s)"
  by (induction s) simp_all

lemma no_marker_findall: "\<not> has_marker s \<Longrightarrow> findall_emotion s = [] \<and> sub_emotion s = s"
  by (induction s) (simp_all add: match_emotion_Cons split: if_splits)

lemma has_marker_iff:
  "has_marker s \<longleftrightarrow> (\<exists>pre m post. s = pre @ 91 # m @ 93 # post \<and> m \<noteq> [] \<and> 93 \<notin> set m)"
proof (induction s)
  case Nil
  then show ?case by simp
next
  case (Cons c cs)
  show ?case
  proof
    assume h: "has_marker (c # cs)"
    show "\<exists>pre m post. c # cs = pre @ 91 # m @ 93 # post \<and> m \<noteq> [] \<and> 93 \<notin> set m"
    proof (cases "c = 91 \<and> 93 \<in> set cs \<and> takeWhile (\<lambda>x. x \<noteq> 93) cs \<noteq> []")
      case True
      let ?m = "takeWhile (\<lambda>x. x \<noteq> 93) cs"
      let ?r = "dropWhile (\<lambda>x. x \<noteq> 93) cs"
      from True have "?r \<noteq> []" by (simp add: dropWhile_eq_Nil_conv)
      moreover have "?r \<noteq> [] \<Longrightarrow> hd ?r = 93" using hd_dropWhile [of "\<lambda>x. x \<noteq> 93" cs] by simp
      ultimately have r: "?r = 93 # tl ?r" by (cases ?r) auto
      have "cs = ?m @ ?r" by simp
      with r have "c # cs = [] @ 91 # ?m @ 93 # tl ?r" using True by simp
      moreover have "93 \<notin> set ?m" by (auto dest: set_takeWhileD)
      ultimately show ?thesis using True by blast
    next
      case False
      with h have "has_marker cs" by (simp split: if_splits)
      with Cons.IH obtain pre m post where "cs = pre @ 91 # m @ 93 # post" "m \<noteq> []" "93 \<notin> set m"
        by blast
      then have "c # cs = (c # pre) @ 91 # m @ 93 # post" by simp
      then show ?thesis using \<open>m \<noteq> []\<close> \<open>93 \<notin> set m\<close> by blast
    qed
  next
    assume "\<exists>pre m post. c # cs = pre @ 91 # m @ 93 # post \<and> m \<noteq> [] \<and> 93 \<notin> set m"
    then obtain pre m post where d: "c # cs = pre @ 91 # m @ 93 # post" "m \<noteq> []" "93 \<notin> set m"
      by blast
    show "has_marker (c # cs)"
    proof (cases pre)
      case Nil
      with d have c: "c = 91" and cs: "cs = m @ 93 # post" by simp_all
      from d(3) have "\<forall>x\<in>set m. x \<noteq> 93" by auto
      then have "takeWhile (\<lambda>x. x \<noteq> 93) (m @ 93 # post) = m"
        by (simp add: takeWhile_append2)
      with c cs d(2) show ?thesis by simp
    next
      case (Cons p ps)
      with d have "cs = ps @ 91 # m @ 93 # post" by simp
      with d(2,3) Cons.IH have "has_marker cs" by blast
      then show ?thesis by simp
    qed
  qed
qed


lemmas parse_eval = extract_emotion_and_text_def match_emotion_def isspace_def strip_def py_def

text \<open>
  An empty bracket pair is enclosed text too, and the specification's reading makes it a
  marker and removes it.  The pattern asks for at least one character between the
  brackets, so the code returns no marker and keeps the brackets in the cleaned text.
\<close>

theorem extract_emotion_and_text_counterexample:
  "extract_emotion_and_text (py ''[] hi'') = ([], py ''[] hi'') \<and>
   spec_parse (py ''[] hi'') = ([[]], py ''hi'')"
  by (simp add: parse_eval spec_parse_def)

text \<open>
  Claim C4, amended.  For every input, \<open>extract_emotion_and_text\<close> returns as markers
  every non-empty text enclosed in a bracket pair, matched non-greedily, left to right
  with duplicates kept, and as cleaned text the input without these markers, with every
  run of whitespace collapsed to one space and the ends trimmed; an empty pair of
  brackets is not a marker and stays.  In particular the text
  \<open>[excited] hi [whispers] there\<close> gives the markers \<open>excited\<close>, \<open>whispers\<close> and the
  cleaned text \<open>hi there\<close>.
\<close>

theorem extract_emotion_and_text_parse:
  "extract_emotion_and_text raw = spec_parse_nonempty raw \<and>
   extract_emotion_and_text (py ''[excited] hi [whispers] there'') =
     ([py ''excited'', py ''whispers''], py ''hi there'')"
proof
  show "extract_emotion_and_text raw = spec_parse_nonempty raw"
    by (simp add: extract_emotion_and_text_def spec_parse_nonempty_def findall_emotion_spec
        sub_emotion_spec sub_spaces_spec)
  show "extract_emotion_and_text (py ''[excited] hi [whispers] there'') =
     ([py ''excited'', py ''whispers''], py ''hi there'')"
    by (simp add: parse_eval)
qed

theorem extract_emotion_and_text_parse_witness:
  "extract_emotion_and_text (py ''[a] b  [a]c[] '') = ([py ''a'', py ''a''], py ''b c[]'')"
  using extract_emotion_and_text_parse [of "py ''[a] b  [a]c[] ''"]
  by (simp add: spec_parse_nonempty_def isspace_def strip_def py_def)

text \<open>
  A text without brackets and with two spaces in a row: the result is not the text
  trimmed, because the run of spaces is collapsed.
\<close>

theorem extract_emotion_and_text_no_marker_counterexample:
  "\<not> has_marker (py ''a  b'') \<and>
   extract_emotion_and_text (py ''a  b'') = ([], py ''a b'') \<and>
   strip (py ''a  b'') = py ''a  b''"
  by (simp add: parse_eval)

text \<open>
  Claim C5, amended.  \<open>extract_emotion_and_text\<close> is a total function, and for every
  input that contains no bracketed marker it returns no markers and the input with every
  run of whitespace collapsed to one space and the ends trimmed.
\<close>

theorem extract_emotion_and_text_no_marker:
  "\<not> has_marker raw \<Longrightarrow>
   extract_emotion_and_text raw = ([], strip (spec_collapse False raw))"
  by (simp add: extract_emotion_and_text_def no_marker_findall sub_spaces_spec)

theorem extract_emotion_and_text_no_marker_witness:
  "\<not> has_marker (py '' no  markers ] [ here '') \<and>
   extract_emotion_and_text (py '' no  markers ] [ here '') = ([], py ''no markers ] [ here'')"
proof -
  have h: "\<not> has_marker (py '' no  markers ] [ here '')"
    by (simp add: py_def)
  show ?thesis
    using h extract_emotion_and_text_no_marker [OF h]
    by (simp add: isspace_def strip_def py_def)
qed


section \<open>Rotation\<close>

lemma range3: "[0..<3] = [0, 1, 2::nat]"
  by (simp add: upt_rec)
lemma range5: "[0..<5] = [0, 1, 2, 3, 4::nat]"
  by (simp add: upt_rec)

lemma requests_perform:
  "requests (perform ev g) = requests g + (if is_first_post ev then 1 else 0)"
  by (simp add: requests_def perform_def)

lemma perform_fields [simp]:
  "accounts (perform ev g) = accounts g"
  "current_account_index (perform ev g) = current_account_index g"
  "tts_request_count (perform ev g) = tts_request_count g"
  "current_token (perform ev g) = current_token g"
  by (simp_all add: perform_def)

lemma requests_update [simp]:
  "requests (g\<lparr>current_token := t\<rparr>) = requests g"
  "requests (g\<lparr>tts_request_count := n\<rparr>) = requests g"
  "requests (g\<lparr>current_account_index := i\<rparr>) = requests g"
  by (simp_all add: requests_def)

lemma firebase_attempts_frame:
  "firebase_attempts env acc ks g = (r, g') \<Longrightarrow>
   accounts g' = accounts g \<and> current_account_index g' = current_account_index g \<and>
   tts_request_count g' = tts_request_count g \<and> requests g' = requests g"
proof (induction ks arbitrary: g)
  case Nil
  then show ?case by simp
next
  case (Cons k ks)
  then show ?case
    by (auto simp: Let_def requests_perform split: auth_response.splits if_splits option.splits)
qed

lemma get_firebase_token_frame:
  "get_firebase_token env g = (r, g') \<Longrightarrow>
   accounts g' = accounts g \<and> current_account_index g' = current_account_index g \<and>
   tts_request_count g' = tts_request_count g \<and> requests g' = requests g"
  by (auto simp: get_firebase_token_def split: if_splits sum.splits option.splits
      dest: firebase_attempts_frame)

lemma tts_attempts_frame:
  "tts_attempts env tok t v st ks g = (r, g') \<Longrightarrow>
   accounts g' = accounts g \<and> current_account_index g' = current_account_index g \<and>
   tts_request_count g' = tts_request_count g \<and> current_token g' = current_token g"
proof (induction ks arbitrary: g)
  case Nil
  then show ?case by simp
next
  case (Cons k ks)
  then show ?case
    by (auto simp: Let_def split: tts_response.splits if_splits)
qed

lemma tts_attempts_requests_later:
  "tts_attempts env tok t v st ks g = (r, g') \<Longrightarrow> 0 \<notin> set ks \<Longrightarrow> requests g' = requests g"
proof (induction ks arbitrary: g)
  case Nil
  then show ?case by simp
next
  case (Cons k ks)
  then show ?case
    by (auto simp: Let_def requests_perform split: tts_response.splits if_splits)
qed

lemma tts_attempts_requests:
  "tts_attempts env tok t v st [0..<5] g = (r, g') \<Longrightarrow> requests g' = Suc (requests g)"
  unfolding range5
  by (auto simp: Let_def requests_perform split: tts_response.splits if_splits
      dest!: tts_attempts_requests_later)


lemma rotation_inv_initial: "accs \<noteq> [] \<Longrightarrow> rotation_inv (initial_globals accs)"
  by (simp add: rotation_inv_def initial_globals_def requests_def)

lemma rotate_step:
  assumes "rotation_inv g"
  obtains g1 where
    "(if should_rotate_account g then rotate_account g else Inr g) = Inr g1"
    "rotation_inv g1" "tts_request_count g1 < 2" "requests g1 = requests g"
    "accounts g1 = accounts g"
    "current_account_index g1 = (requests g div 2) mod length (accounts g)"
proof (cases "should_rotate_account g")
  case True
  with assms have c: "tts_request_count g = 2"
    by (simp add: should_rotate_account_def rotation_inv_def)
  let ?g1 = "g\<lparr>current_account_index := (current_account_index g + 1) mod length (accounts g),
               tts_request_count := 0, current_token := None\<rparr>"
  from assms c have n: "2 \<le> requests g" "even (requests g)"
    and i: "current_account_index g = ((requests g - 2) div 2) mod length (accounts g)"
    and a: "accounts g \<noteq> []"
    by (auto simp: rotation_inv_def)
  from n have "Suc ((requests g - 2) div 2) = requests g div 2"
    by (metis Suc_diff_le Suc_eq_plus1 add_diff_cancel_right' div_add_self2 nat_1_add_1 plus_1_eq_Suc zero_neq_numeral add.commute le_add_diff_inverse2)
  with i have idx: "(current_account_index g + 1) mod length (accounts g)
      = (requests g div 2) mod length (accounts g)"
    by (simp add: mod_Suc_eq)
  have "(if should_rotate_account g then rotate_account g else Inr g) = Inr ?g1"
    using True a by (simp add: rotate_account_def)
  moreover have "rotation_inv ?g1"
    using a n idx by (simp add: rotation_inv_def)
  moreover have "tts_request_count ?g1 < 2" "requests ?g1 = requests g" "accounts ?g1 = accounts g"
    by simp_all
  moreover have "current_account_index ?g1 = (requests g div 2) mod length (accounts g)"
    using idx by simp
  ultimately show ?thesis by (rule that)
next
  case False
  then have c: "tts_request_count g < 2"
    by (simp add: should_rotate_account_def)
  from assms have e: "even (requests g + tts_request_count g)" "tts_request_count g \<le> requests g"
    by (simp_all add: rotation_inv_def)
  have "(requests g - tts_request_count g) div 2 = requests g div 2"
  proof (cases "tts_request_count g = 0")
    case True
    then show ?thesis by simp
  next
    case False
    with c have c1: "tts_request_count g = 1" by simp
    with e have "odd (requests g)" by auto
    then show ?thesis using c1 by (auto elim!: oddE)
  qed
  with assms have "current_account_index g = (requests g div 2) mod length (accounts g)"
    by (simp add: rotation_inv_def)
  with False assms c show ?thesis by (intro that [of g]) simp_all
qed

lemma text_to_speech_v3_step:
  assumes inv: "rotation_inv g"
    and call: "text_to_speech_v3 env text voice_id emotions g = (r, g')"
  shows "rotation_inv g' \<and> accounts g' = accounts g \<and>
    (if returned_audio r \<or> requests g' \<noteq> requests g
     then requests g' = Suc (requests g) \<and>
          current_account_index g' = (requests g div 2) mod length (accounts g)
     else requests g' = requests g)"
proof -
  from inv obtain g1 where
    g1: "(if should_rotate_account g then rotate_account g else Inr g) = Inr g1"
    and inv1: "rotation_inv g1" and c1: "tts_request_count g1 < 2"
    and r1: "requests g1 = requests g" and a1: "accounts g1 = accounts g"
    and i1: "current_account_index g1 = (requests g div 2) mod length (accounts g)"
    by (rule rotate_step)
  obtain t g2 where tok: "get_firebase_token env g1 = (t, g2)"
    by (cases "get_firebase_token env g1")
  from get_firebase_token_frame [OF tok]
  have f2: "accounts g2 = accounts g1" "current_account_index g2 = current_account_index g1"
    "tts_request_count g2 = tts_request_count g1" "requests g2 = requests g1"
    by simp_all
  from inv1 f2 have inv2: "rotation_inv g2"
    by (simp add: rotation_inv_def)
  show ?thesis
  proof (cases "\<exists>token. t = Inr (Some token) \<and> token \<noteq> []")
    case False
    with call g1 tok have "g' = g2" "\<not> returned_audio r"
      by (auto simp: text_to_speech_v3_def split: sum.splits option.splits if_splits)
    with inv2 f2 r1 a1 show ?thesis by simp
  next
    case True
    then obtain token where t: "t = Inr (Some token)" "token \<noteq> []" by blast
    obtain ab g4 where att: "tts_attempts env token text voice_id (tts_stability emotions) [0..<5]
        (increment_tts_count g2) = (ab, g4)"
      by (cases "tts_attempts env token text voice_id (tts_stability emotions) [0..<5]
        (increment_tts_count g2)")
    with call g1 tok t have g': "g' = g4"
      by (simp add: text_to_speech_v3_def)
    from tts_attempts_frame [OF att] tts_attempts_requests [OF att]
    have f4: "accounts g4 = accounts g2" "current_account_index g4 = current_account_index g2"
      "tts_request_count g4 = Suc (tts_request_count g2)" "requests g4 = Suc (requests g2)"
      by (simp_all add: increment_tts_count_def)
    from inv2 f4 c1 f2 have "rotation_inv g4"
      by (simp add: rotation_inv_def)
    with g' f4 f2 r1 a1 i1 show ?thesis by simp
  qed
qed


lemma tts_calls_inv:
  "rotation_inv g \<Longrightarrow> tts_calls calls g = (rs, g') \<Longrightarrow>
   rotation_inv g' \<and> accounts g' = accounts g \<and>
   (list_all returned_audio rs \<longrightarrow> requests g' = requests g + length calls)"
proof (induction calls arbitrary: g rs g')
  case Nil
  then show ?case by simp
next
  case (Cons c calls)
  obtain env tx voice_id emotions where c: "c = (env, tx, voice_id, emotions)"
    by (cases c)
  obtain r g1 where one: "text_to_speech_v3 env tx voice_id emotions g = (r, g1)"
    by (cases "text_to_speech_v3 env tx voice_id emotions g")
  obtain rs1 g2 where more: "tts_calls calls g1 = (rs1, g2)"
    by (cases "tts_calls calls g1")
  from Cons.prems(2) c one more have eq: "rs = r # rs1" "g' = g2"
    by simp_all
  note step = text_to_speech_v3_step [OF Cons.prems(1) one]
  from step have inv1: "rotation_inv g1" by simp
  note ih = Cons.IH [OF inv1 more]
  from step ih eq show ?case
    by (auto split: if_splits)
qed

lemmas call_eval = text_to_speech_v3_def should_rotate_account_def rotate_account_def
  get_firebase_token_def get_current_account_def truthy_def perform_def increment_tts_count_def
  initial_globals_def range3 range5 py_def tts_stability_def

text \<open>
  Claim C2.  After any sequence of synthesis calls from the initial globals over a
  non-empty pool, whatever the services answered, the next call issues at most one
  request, and when it issues one (in particular when it returns audio) the account index
  is the number of requests issued before it, divided by 2, modulo the pool size.
\<close>

theorem rotation_every_two_requests:
  assumes "accs \<noteq> []"
    and "tts_calls calls (initial_globals accs) = (rs, g)"
    and "text_to_speech_v3 env text voice_id emotions g = (r, g')"
  shows "(requests g' = requests g \<or> requests g' = Suc (requests g)) \<and>
    (requests g' = Suc (requests g) \<longrightarrow>
       current_account_index g' = (requests g div 2) mod length accs) \<and>
    (returned_audio r \<longrightarrow> requests g' = Suc (requests g))"
proof -
  from assms(1) have "rotation_inv (initial_globals accs)"
    by (rule rotation_inv_initial)
  from tts_calls_inv [OF this assms(2)]
  have inv: "rotation_inv g" and a: "accounts g = accs"
    by (simp_all add: initial_globals_def)
  note step = text_to_speech_v3_step [OF inv assms(3)]
  show ?thesis
  proof (cases "returned_audio r \<or> requests g' \<noteq> requests g")
    case True
    with step have "requests g' = Suc (requests g)"
      and "current_account_index g' = (requests g div 2) mod length (accounts g)"
      by simp_all
    with a show ?thesis by simp
  next
    case False
    with step have "requests g' = requests g" by simp
    with False show ?thesis by simp
  qed
qed


lemma two_ok_calls:
  "tts_calls [ok_call, ok_call] (initial_globals three_accounts) =
     ([Inr (Some [1, 2, 3]), Inr (Some [1, 2, 3])],
      \<lparr>accounts = three_accounts, current_account_index = 0, tts_request_count = 2,
       current_token = Some (py ''token''),
       effects = [FirebasePost (py ''a@x'') (py ''pa''),
                  TtsPost 0 (py ''token'') (py ''hi'') (py ''voice'') (1 / 2),
                  TtsPost 0 (py ''token'') (py ''hi'') (py ''voice'') (1 / 2)]\<rparr>)"
  by (simp add: call_eval ok_call_def ok_env_def three_accounts_def Let_def)

lemma third_failing_call:
  "text_to_speech_v3 failing_env (py ''hi'') (py ''voice'') None
     \<lparr>accounts = three_accounts, current_account_index = 0, tts_request_count = 2,
       current_token = Some (py ''token''),
       effects = [FirebasePost (py ''a@x'') (py ''pa''),
                  TtsPost 0 (py ''token'') (py ''hi'') (py ''voice'') (1 / 2),
                  TtsPost 0 (py ''token'') (py ''hi'') (py ''voice'') (1 / 2)]\<rparr> = (r, g')
   \<Longrightarrow> r = Inr None \<and> current_account_index g' = 1 \<and> tts_request_count g' = 1 \<and> requests g' = 3"
  by (auto simp add: call_eval failing_env_def three_accounts_def Let_def requests_def)

lemma len3: "length three_accounts = 3" by (simp add: three_accounts_def)

theorem rotation_every_two_requests_witness:
  "three_accounts \<noteq> [] \<and>
   requests (snd (tts_calls [ok_call, ok_call] (initial_globals three_accounts))) = 2 \<and>
   requests (snd (text_to_speech_v3 failing_env (py ''hi'') (py ''voice'') None
     (snd (tts_calls [ok_call, ok_call] (initial_globals three_accounts))))) = 3 \<and>
   current_account_index (snd (text_to_speech_v3 failing_env (py ''hi'') (py ''voice'') None
     (snd (tts_calls [ok_call, ok_call] (initial_globals three_accounts))))) = 1"
proof -
  define g where "g = snd (tts_calls [ok_call, ok_call] (initial_globals three_accounts))"
  define g' where "g' = snd (text_to_speech_v3 failing_env (py ''hi'') (py ''voice'') None g)"
  have a: "three_accounts \<noteq> []"
    by (simp add: three_accounts_def)
  have b: "tts_calls [ok_call, ok_call] (initial_globals three_accounts) =
      (fst (tts_calls [ok_call, ok_call] (initial_globals three_accounts)), g)"
    by (simp add: g_def)
  have c: "text_to_speech_v3 failing_env (py ''hi'') (py ''voice'') None g =
      (fst (text_to_speech_v3 failing_env (py ''hi'') (py ''voice'') None g), g')"
    by (simp add: g'_def)
  have gv: "g = \<lparr>accounts = three_accounts, current_account_index = 0, tts_request_count = 2,
       current_token = Some (py ''token''),
       effects = [FirebasePost (py ''a@x'') (py ''pa''),
                  TtsPost 0 (py ''token'') (py ''hi'') (py ''voice'') (1 / 2),
                  TtsPost 0 (py ''token'') (py ''hi'') (py ''voice'') (1 / 2)]\<rparr>"
    unfolding g_def two_ok_calls by simp
  have n: "requests g = 2"
    unfolding gv by (simp add: requests_def)
  have m: "requests g' = 3"
    using third_failing_call [OF c [unfolded gv]] by simp
  have "current_account_index g' = (requests g div 2) mod length three_accounts"
    using rotation_every_two_requests [OF a b c] n m by simp
  then have "current_account_index g' = 1"
    using n len3 by simp
  with a n m show ?thesis
    unfolding g'_def g_def by simp
qed

section \<open>Token cache and rotation\<close>

lemma firebase_attempts_token:
  "firebase_attempts env acc ks g = (Inr (Some t), g') \<Longrightarrow>
   (\<exists>k\<in>set ks. auth_reply env k = AuthResponse 200 (Some t)) \<and>
   (\<exists>xs. effects g' = effects g @ FirebasePost (email acc) (password acc) # xs)"
proof (induction ks arbitrary: g)
  case Nil
  then show ?case by simp
next
  case (Cons k ks)
  let ?g1 = "perform (FirebasePost (email acc) (password acc)) g"
  let ?g2 = "if k < 3 - 1 then perform (Sleep 3) ?g1 else ?g1"
  have e2: "\<exists>ys. effects ?g2 = effects g @ FirebasePost (email acc) (password acc) # ys"
    by (simp add: perform_def)
  show ?case
  proof (cases "auth_reply env k = AuthResponse 200 (Some t)")
    case True
    with Cons.prems have "g' = ?g1\<lparr>current_token := Some t\<rparr>"
      by (simp add: Let_def)
    with True show ?thesis by (simp add: perform_def)
  next
    case False
    with Cons.prems have rec: "firebase_attempts env acc ks ?g2 = (Inr (Some t), g')"
      by (auto simp: Let_def split: auth_response.splits if_splits option.splits)
    from Cons.IH [OF rec] e2 show ?thesis
      by auto
  qed
qed

text \<open>
  Claim C7.  With a token cached, \<open>get_firebase_token\<close> returns that token and leaves the
  globals as they are, the effects included: no request is made.  A rotation on a
  non-empty pool moves the index to the next one modulo the pool size, resets the counter
  to zero and forgets the token; a token returned by the next \<open>get_firebase_token\<close> then
  comes from a sign-in request made in that call with the new account's credentials.
\<close>

theorem token_cache_and_rotation:
  "(truthy (current_token g) \<longrightarrow> get_firebase_token env g = (Inr (current_token g), g)) \<and>
   (accounts g \<noteq> [] \<longrightarrow>
      rotate_account g =
        Inr (g\<lparr>current_account_index := (current_account_index g + 1) mod length (accounts g),
               tts_request_count := 0, current_token := None\<rparr>)) \<and>
   (rotate_account g = Inr g1 \<and> get_firebase_token env g1 = (Inr (Some t), g2) \<longrightarrow>
      current_token g1 = None \<and>
      (\<exists>k<3. auth_reply env k = AuthResponse 200 (Some t)) \<and>
      (\<exists>xs. effects g2 =
         effects g1 @ FirebasePost (email (accounts g1 ! current_account_index g1))
                        (password (accounts g1 ! current_account_index g1)) # xs))"
proof (intro conjI impI)
  assume "truthy (current_token g)"
  then show "get_firebase_token env g = (Inr (current_token g), g)"
    by (simp add: get_firebase_token_def)
next
  assume "accounts g \<noteq> []"
  then show "rotate_account g =
        Inr (g\<lparr>current_account_index := (current_account_index g + 1) mod length (accounts g),
               tts_request_count := 0, current_token := None\<rparr>)"
    by (simp add: rotate_account_def)
next
  assume h: "rotate_account g = Inr g1 \<and> get_firebase_token env g1 = (Inr (Some t), g2)"
  then show n: "current_token g1 = None"
    by (auto simp: rotate_account_def split: if_splits)
  from h n have att: "firebase_attempts env (accounts g1 ! current_account_index g1) [0..<3] g1
      = (Inr (Some t), g2)"
    by (auto simp: get_firebase_token_def truthy_def get_current_account_def
        split: if_splits)
  from firebase_attempts_token [OF att]
  show "\<exists>k<3. auth_reply env k = AuthResponse 200 (Some t)"
    by auto
  from firebase_attempts_token [OF att]
  show "\<exists>xs. effects g2 =
         effects g1 @ FirebasePost (email (accounts g1 ! current_account_index g1))
                        (password (accounts g1 ! current_account_index g1)) # xs"
    by blast
qed

lemma cached_rotated:
  "rotate_account cached_globals = Inr (cached_globals\<lparr>current_account_index := 0,
      tts_request_count := 0, current_token := None\<rparr>)"
  by (simp add: rotate_account_def cached_globals_def three_accounts_def)

lemma cached_rotated_token:
  "get_firebase_token ok_env (cached_globals\<lparr>current_account_index := 0,
      tts_request_count := 0, current_token := None\<rparr>) =
     (Inr (Some (py ''token'')),
      cached_globals\<lparr>current_account_index := 0, tts_request_count := 0,
        current_token := Some (py ''token''),
        effects := [FirebasePost (py ''a@x'') (py ''pa'')]\<rparr>)"
  by (simp add: get_firebase_token_def cached_globals_def three_accounts_def truthy_def
      get_current_account_def ok_env_def range3 perform_def py_def Let_def)

theorem token_cache_and_rotation_witness:
  "truthy (current_token cached_globals) \<and> accounts cached_globals \<noteq> [] \<and>
   get_firebase_token no_auth_env cached_globals = (Inr (Some (py ''old'')), cached_globals) \<and>
   rotate_account cached_globals =
     Inr (cached_globals\<lparr>current_account_index := 0, tts_request_count := 0,
            current_token := None\<rparr>) \<and>
   (\<exists>k<3. auth_reply ok_env k = AuthResponse 200 (Some (py ''token'')))"
proof -
  have a: "truthy (current_token cached_globals)"
    by (simp add: cached_globals_def truthy_def py_def)
  have b: "accounts cached_globals \<noteq> []"
    by (simp add: cached_globals_def three_accounts_def)
  note t1 = token_cache_and_rotation [of cached_globals no_auth_env, THEN conjunct1, rule_format, OF a]
  note t2 = token_cache_and_rotation [of cached_globals ok_env
      "cached_globals\<lparr>current_account_index := 0, tts_request_count := 0, current_token := None\<rparr>"
      "py ''token''"
      "cached_globals\<lparr>current_account_index := 0, tts_request_count := 0,
        current_token := Some (py ''token''),
        effects := [FirebasePost (py ''a@x'') (py ''pa'')]\<rparr>",
      THEN conjunct2, THEN conjunct2, rule_format, OF conjI, OF cached_rotated cached_rotated_token]
  from a b t1 t2 cached_rotated show ?thesis
    by (simp add: cached_globals_def)
qed

lemma seven_ok_calls:
  "tts_calls [ok_call, ok_call, ok_call, ok_call, ok_call, ok_call, ok_call]
     (initial_globals three_accounts) = (rs, g) \<Longrightarrow>
   list_all returned_audio rs \<and> current_account_index g = 0 \<and> tts_request_count g = 1"
  by (auto simp add: call_eval ok_call_def ok_env_def three_accounts_def Let_def)

text \<open>
  Seven successful calls on a pool of three accounts: the index ends at 0, not at 1.  The
  rotations happen at the start of calls 3, 5 and 7.
\<close>

theorem seven_calls_counterexample:
  "length three_accounts = 3 \<and>
   list_all returned_audio
     (fst (tts_calls [ok_call, ok_call, ok_call, ok_call, ok_call, ok_call, ok_call]
        (initial_globals three_accounts))) \<and>
   current_account_index
     (snd (tts_calls [ok_call, ok_call, ok_call, ok_call, ok_call, ok_call, ok_call]
        (initial_globals three_accounts))) \<noteq> 1"
  using seven_ok_calls [OF prod.collapse [symmetric]]
  by (simp add: three_accounts_def)

text \<open>
  Claim C6, amended.  Given a pool of size 3 starting at index 0 with counter 0, after 7
  successful synthesis calls the index is 0 (and the counter is 1).
\<close>

theorem seven_successful_calls:
  assumes "length accs = 3" and "length calls = 7"
    and "tts_calls calls (initial_globals accs) = (rs, g)"
    and "list_all returned_audio rs"
  shows "current_account_index g = 0 \<and> tts_request_count g = 1"
proof -
  from assms(1) have "accs \<noteq> []" by auto
  then have "rotation_inv (initial_globals accs)"
    by (rule rotation_inv_initial)
  from tts_calls_inv [OF this assms(3)] assms(2,4)
  have inv: "rotation_inv g" and a: "accounts g = accs" and n: "requests g = 7"
    by (simp_all add: initial_globals_def requests_def)
  from inv n have c: "tts_request_count g \<le> 2" "even (7 + tts_request_count g)"
    by (simp_all add: rotation_inv_def)
  have c1: "tts_request_count g = 1"
  proof (rule ccontr)
    assume "tts_request_count g \<noteq> 1"
    with c(1) have "tts_request_count g = 0 \<or> tts_request_count g = 2" by arith
    with c(2) show False by auto
  qed
  from inv n c1 a assms(1) have "current_account_index g = 0"
    by (simp add: rotation_inv_def)
  with c1 show ?thesis by simp
qed

theorem seven_successful_calls_witness:
  "length three_accounts = 3 \<and>
   current_account_index
     (snd (tts_calls [ok_call, ok_call, ok_call, ok_call, ok_call, ok_call, ok_call]
        (initial_globals three_accounts))) = 0"
proof -
  let ?calls = "[ok_call, ok_call, ok_call, ok_call, ok_call, ok_call, ok_call]"
  have l: "length three_accounts = 3" by (simp add: three_accounts_def)
  have n: "length ?calls = 7" by simp
  have r: "list_all returned_audio (fst (tts_calls ?calls (initial_globals three_accounts)))"
    using seven_ok_calls [OF prod.collapse [symmetric]] by simp
  from seven_successful_calls [OF l n prod.collapse [symmetric] r] l show ?thesis
    by simp
qed

section \<open>The timeline, retries and the fallback\<close>

lemma process_segment_cases:
  "(\<exists>g'. process_segment env seg m = m\<lparr>glob := g'\<rparr>) \<or>
   (\<exists>g' sp. process_segment env seg m = place_speech (start_time seg * 1000) sp (m\<lparr>glob := g'\<rparr>))"
proof -
  have keep: "\<And>g'. \<exists>h. m\<lparr>glob := g'\<rparr> = m\<lparr>glob := h\<rparr>" by blast
  have same: "\<exists>h. m = m\<lparr>glob := h\<rparr>"
    by (rule exI [of _ "glob m"]) simp
  show ?thesis
    unfolding process_segment_def Let_def
    by (auto split: prod.splits option.splits sum.splits if_splits intro: same)
qed

lemma process_segment_timeline:
  "(final_podcast (process_segment env seg m) = final_podcast m \<and>
    previous_end_time (process_segment env seg m) = previous_end_time m) \<or>
   (\<exists>sp. final_podcast (process_segment env seg m) =
            final_podcast m @ [(max (start_time seg * 1000) (previous_end_time m + 500), sp)] \<and>
         previous_end_time (process_segment env seg m) =
            max (start_time seg * 1000) (previous_end_time m + 500) + int (duration_ms sp))"
  using process_segment_cases [of env seg m]
  by (auto simp: place_speech_def Let_def)

lemma timeline_ok_step: "timeline_ok m \<Longrightarrow> timeline_ok (process_segment env seg m)"
proof -
  assume ok: "timeline_ok m"
  from process_segment_timeline [of env seg m]
  show ?thesis
  proof
    assume "final_podcast (process_segment env seg m) = final_podcast m \<and>
      previous_end_time (process_segment env seg m) = previous_end_time m"
    with ok show ?thesis by (simp add: timeline_ok_def)
  next
    assume "\<exists>sp. final_podcast (process_segment env seg m) =
            final_podcast m @ [(max (start_time seg * 1000) (previous_end_time m + 500), sp)] \<and>
         previous_end_time (process_segment env seg m) =
            max (start_time seg * 1000) (previous_end_time m + 500) + int (duration_ms sp)"
    then obtain sp where
      fp: "final_podcast (process_segment env seg m) =
            final_podcast m @ [(max (start_time seg * 1000) (previous_end_time m + 500), sp)]"
      and pe: "previous_end_time (process_segment env seg m) =
            max (start_time seg * 1000) (previous_end_time m + 500) + int (duration_ms sp)"
      by blast
    let ?p = "max (start_time seg * 1000) (previous_end_time m + 500)"
    have prev0: "0 \<le> previous_end_time m"
    proof (cases "final_podcast m = []")
      case True
      with ok show ?thesis by (simp add: timeline_ok_def)
    next
      case False
      then have "last (final_podcast m) \<in> set (final_podcast m)" by simp
      with ok have "500 \<le> fst (last (final_podcast m))" by (simp add: timeline_ok_def)
      moreover from ok False have "previous_end_time m =
          fst (last (final_podcast m)) + int (duration_ms (snd (last (final_podcast m))))"
        by (simp add: timeline_ok_def)
      ultimately show ?thesis by simp
    qed
    have gaps: "fst ((final_podcast m @ [(?p, sp)]) ! (n - 1)) +
          int (duration_ms (snd ((final_podcast m @ [(?p, sp)]) ! (n - 1)))) + 500
          \<le> fst ((final_podcast m @ [(?p, sp)]) ! n)"
      if n: "0 < n" "n < length (final_podcast m @ [(?p, sp)])" for n
    proof (cases "n < length (final_podcast m)")
      case True
      with n have "n - 1 < length (final_podcast m)" by simp
      with True have "(final_podcast m @ [(?p, sp)]) ! (n - 1) = final_podcast m ! (n - 1)"
        "(final_podcast m @ [(?p, sp)]) ! n = final_podcast m ! n"
        by (simp_all only: nth_append if_True)
      moreover from ok n True have
        "fst (final_podcast m ! (n - 1)) + int (duration_ms (snd (final_podcast m ! (n - 1)))) + 500
          \<le> fst (final_podcast m ! n)"
        unfolding timeline_ok_def by blast
      ultimately show ?thesis by simp
    next
      case False
      with n have nl: "n = length (final_podcast m)" by simp
      with n have ne: "final_podcast m \<noteq> []" by auto
      with ok have "previous_end_time m =
          fst (last (final_podcast m)) + int (duration_ms (snd (last (final_podcast m))))"
        by (simp add: timeline_ok_def)
      moreover from ne nl have "(final_podcast m @ [(?p, sp)]) ! (n - 1) = last (final_podcast m)"
        by (simp add: nth_append last_conv_nth)
      moreover from nl have "(final_podcast m @ [(?p, sp)]) ! n = (?p, sp)" by simp
      ultimately show ?thesis by simp
    qed
    from ok prev0 have "\<forall>ps\<in>set (final_podcast m @ [(?p, sp)]). 500 \<le> fst ps"
      by (auto simp: timeline_ok_def)
    with gaps show ?thesis
      unfolding timeline_ok_def fp pe by auto
  qed
qed

lemma timeline_ok_mix: "timeline_ok m \<Longrightarrow> timeline_ok (mix_segments envs i segs m)"
  by (induction segs arbitrary: i m) (simp_all add: timeline_ok_step)

lemma timeline_ok_initial: "timeline_ok (initial_mixer g)"
  by (simp add: timeline_ok_def initial_mixer_def)

lemma mix_segments_snoc:
  "mix_segments envs i (segs @ [seg]) m =
     process_segment (envs (i + length segs)) seg (mix_segments envs i segs m)"
  by (induction segs arbitrary: i m) simp_all

lemma first_clip:
  "final_podcast (mix_segments envs 0 segs (initial_mixer g)) \<noteq> [] \<Longrightarrow>
   \<exists>k<length segs.
     final_podcast (mix_segments envs 0 (take k segs) (initial_mixer g)) = [] \<and>
     fst (hd (final_podcast (mix_segments envs 0 segs (initial_mixer g)))) =
       max (start_time (segs ! k) * 1000) 500"
proof (induction segs rule: rev_induct)
  case Nil
  then show ?case by (simp add: initial_mixer_def)
next
  case (snoc seg segs)
  let ?m = "mix_segments envs 0 segs (initial_mixer g)"
  let ?m' = "mix_segments envs 0 (segs @ [seg]) (initial_mixer g)"
  have m': "?m' = process_segment (envs (length segs)) seg ?m"
    by (simp add: mix_segments_snoc)
  have ok: "timeline_ok ?m"
    by (simp add: timeline_ok_mix timeline_ok_initial)
  note step = process_segment_timeline [of "envs (length segs)" seg ?m]
  show ?case
  proof (cases "final_podcast ?m = []")
    case True
    with ok have p0: "previous_end_time ?m = 0" by (simp add: timeline_ok_def)
    from step snoc.prems True p0 m'
    have "fst (hd (final_podcast ?m')) = max (start_time seg * 1000) 500"
      by auto
    with True show ?thesis
      by (intro exI [of _ "length segs"]) simp
  next
    case False
    from snoc.IH [OF False] obtain k where k: "k < length segs"
      "final_podcast (mix_segments envs 0 (take k segs) (initial_mixer g)) = []"
      "fst (hd (final_podcast ?m)) = max (start_time (segs ! k) * 1000) 500"
      by blast
    from step False m' have "hd (final_podcast ?m') = hd (final_podcast ?m)"
      by auto
    with k show ?thesis
      by (intro exI [of _ k]) (simp add: nth_append)
  qed
qed

lemma VOICE_MAPPING_nonempty: "VOICE_MAPPING s = Some v \<Longrightarrow> v \<noteq> []"
  by (auto simp: VOICE_MAPPING_def py_def split: if_splits)

lemmas mix_eval = process_segment_def extract_emotion_and_text_def match_emotion_def isspace_def
  strip_def VOICE_MAPPING_def place_speech_def fallback_convert_def initial_mixer_def

lemma example_run:
  "mix_segments (\<lambda>i. ok_env) 0 (segments example_script) (initial_mixer (initial_globals three_accounts)) = m
   \<Longrightarrow> final_podcast m =
        [(500, \<lparr>audio = [1, 2, 3], duration_ms = 1000\<rparr>),
         (2000, \<lparr>audio = [1, 2, 3], duration_ms = 1000\<rparr>)] \<and>
       previous_end_time m = 3000"
  by (auto simp add: example_script_def host_def mix_eval call_eval ok_env_def three_accounts_def Let_def)

text \<open>
  Claim C9.  A segment whose speaker has no entry in the voice mapping leaves the whole
  state of the loop as it is: no clip is placed, \<open>previous_end_time\<close> and the timeline are
  unchanged, and the loop goes on with the remaining segments.
\<close>

theorem unmapped_speaker_skipped:
  "VOICE_MAPPING (speaker seg) = None \<Longrightarrow>
   process_segment env seg m = m \<and>
   mix_segments envs i (seg # rest) m = mix_segments envs (Suc i) rest m"
  by (simp add: process_segment_def split: prod.splits)

theorem unmapped_speaker_skipped_witness:
  "VOICE_MAPPING (py ''AI'') = None \<and>
   process_segment ok_env
     \<lparr>seg_type = py ''dialogue'', speaker = py ''AI'', seg_text = py ''[confident] hi'', start_time = 8\<rparr>
     (initial_mixer (initial_globals three_accounts)) = initial_mixer (initial_globals three_accounts)"
proof -
  have h: "VOICE_MAPPING (speaker \<lparr>seg_type = py ''dialogue'', speaker = py ''AI'',
      seg_text = py ''[confident] hi'', start_time = 8\<rparr>) = None"
    by (simp add: VOICE_MAPPING_def py_def)
  from unmapped_speaker_skipped [OF h, of ok_env "initial_mixer (initial_globals three_accounts)"] h
  show ?thesis by simp
qed

text \<open>
  Claim C1.  A segment either leaves the timeline and \<open>previous_end_time\<close> alone or places
  one clip, at the maximum of its planned start and \<open>previous_end_time + 500\<close>, and moves
  \<open>previous_end_time\<close> to that position plus the clip's duration.  Consequently, in the
  timeline of every run each clip after the first starts at least 500 ms after the end
  of the clip before it, whatever the planned starts are.
\<close>

theorem placement_no_overlap:
  "((final_podcast (process_segment env seg m0) = final_podcast m0 \<and>
     previous_end_time (process_segment env seg m0) = previous_end_time m0) \<or>
    (\<exists>sp. final_podcast (process_segment env seg m0) =
             final_podcast m0 @ [(max (start_time seg * 1000) (previous_end_time m0 + 500), sp)] \<and>
          previous_end_time (process_segment env seg m0) =
             max (start_time seg * 1000) (previous_end_time m0 + 500) + int (duration_ms sp))) \<and>
   (create_and_mix_audio envs client scr g = Some m \<and> 0 < n \<and> n < length (final_podcast m) \<longrightarrow>
      fst (final_podcast m ! (n - 1)) + int (duration_ms (snd (final_podcast m ! (n - 1)))) + 500
        \<le> fst (final_podcast m ! n))"
proof (intro conjI impI)
  show "(final_podcast (process_segment env seg m0) = final_podcast m0 \<and>
     previous_end_time (process_segment env seg m0) = previous_end_time m0) \<or>
    (\<exists>sp. final_podcast (process_segment env seg m0) =
             final_podcast m0 @ [(max (start_time seg * 1000) (previous_end_time m0 + 500), sp)] \<and>
          previous_end_time (process_segment env seg m0) =
             max (start_time seg * 1000) (previous_end_time m0 + 500) + int (duration_ms sp))"
    by (rule process_segment_timeline)
next
  assume h: "create_and_mix_audio envs client scr g = Some m \<and> 0 < n \<and> n < length (final_podcast m)"
  then have "\<exists>sc::script. m = mix_segments envs 0 (segments sc) (initial_mixer g)"
    by (auto simp: create_and_mix_audio_def split: option.splits sum.splits)
  then have "timeline_ok m"
    by (auto simp: timeline_ok_mix timeline_ok_initial)
  with h show "fst (final_podcast m ! (n - 1)) + int (duration_ms (snd (final_podcast m ! (n - 1)))) + 500
        \<le> fst (final_podcast m ! n)"
    unfolding timeline_ok_def by blast
qed

theorem placement_no_overlap_witness:
  "create_and_mix_audio (\<lambda>i. ok_env) (Inr ()) (Some example_script) (initial_globals three_accounts)
     = Some (mix_segments (\<lambda>i. ok_env) 0 (segments example_script)
               (initial_mixer (initial_globals three_accounts))) \<and>
   map fst (final_podcast (mix_segments (\<lambda>i. ok_env) 0 (segments example_script)
               (initial_mixer (initial_globals three_accounts)))) = [500, 2000] \<and>
   (500::int) + int 1000 + 500 \<le> 2000"
proof -
  let ?m = "mix_segments (\<lambda>i. ok_env) 0 (segments example_script)
               (initial_mixer (initial_globals three_accounts))"
  have c: "create_and_mix_audio (\<lambda>i. ok_env) (Inr ()) (Some example_script)
      (initial_globals three_accounts) = Some ?m"
    by (simp add: create_and_mix_audio_def)
  have fp: "final_podcast ?m = [(500, \<lparr>audio = [1, 2, 3], duration_ms = 1000\<rparr>),
         (2000, \<lparr>audio = [1, 2, 3], duration_ms = 1000\<rparr>)]"
    using example_run [OF refl] by simp
  have n: "(0::nat) < 1" "1 < length (final_podcast ?m)"
    by (simp_all add: fp)
  from placement_no_overlap [THEN conjunct2, rule_format, OF conjI [OF c conjI [OF n]]] c
  show ?thesis by (simp add: fp)
qed

text \<open>
  Claim C10.  In every run no clip is placed below 500 ms, and the first clip of the
  timeline is at the maximum of 500 and the planned start of its segment, the first
  segment that placed a clip.
\<close>

theorem first_clip_offset:
  "create_and_mix_audio envs client (Some sc) g = Some m \<Longrightarrow>
   (\<forall>ps\<in>set (final_podcast m). 500 \<le> fst ps) \<and>
   (final_podcast m \<noteq> [] \<longrightarrow>
      (\<exists>k<length (segments sc).
         final_podcast (mix_segments envs 0 (take k (segments sc)) (initial_mixer g)) = [] \<and>
         fst (hd (final_podcast m)) = max (start_time (segments sc ! k) * 1000) 500))"
proof -
  assume "create_and_mix_audio envs client (Some sc) g = Some m"
  then have m: "m = mix_segments envs 0 (segments sc) (initial_mixer g)"
    by (auto simp: create_and_mix_audio_def split: sum.splits)
  then have "timeline_ok m"
    by (simp add: timeline_ok_mix timeline_ok_initial)
  then have "\<forall>ps\<in>set (final_podcast m). 500 \<le> fst ps"
    by (simp add: timeline_ok_def)
  moreover have "final_podcast m \<noteq> [] \<longrightarrow>
      (\<exists>k<length (segments sc).
         final_podcast (mix_segments envs 0 (take k (segments sc)) (initial_mixer g)) = [] \<and>
         fst (hd (final_podcast m)) = max (start_time (segments sc ! k) * 1000) 500)"
    unfolding m by (rule impI) (rule first_clip)
  ultimately show ?thesis by simp
qed

theorem first_clip_offset_witness:
  "create_and_mix_audio (\<lambda>i. ok_env) (Inr ()) (Some example_script) (initial_globals three_accounts)
     = Some (mix_segments (\<lambda>i. ok_env) 0 (segments example_script)
               (initial_mixer (initial_globals three_accounts))) \<and>
   start_time (segments example_script ! 0) = 0 \<and>
   fst (hd (final_podcast (mix_segments (\<lambda>i. ok_env) 0 (segments example_script)
               (initial_mixer (initial_globals three_accounts))))) = 500"
proof -
  let ?m = "mix_segments (\<lambda>i. ok_env) 0 (segments example_script)
               (initial_mixer (initial_globals three_accounts))"
  have c: "create_and_mix_audio (\<lambda>i. ok_env) (Inr ()) (Some example_script)
      (initial_globals three_accounts) = Some ?m"
    by (simp add: create_and_mix_audio_def)
  have fp: "final_podcast ?m = [(500, \<lparr>audio = [1, 2, 3], duration_ms = 1000\<rparr>),
         (2000, \<lparr>audio = [1, 2, 3], duration_ms = 1000\<rparr>)]"
    using example_run [OF refl] by simp
  from first_clip_offset [OF c] have "\<forall>ps\<in>set (final_podcast ?m). 500 \<le> fst ps"
    by (rule conjunct1)
  with c fp show ?thesis
    by (simp add: example_script_def)
qed

lemma tts_attempts_failed_step:
  "tts_failed (tts_reply env k) \<Longrightarrow>
   tts_attempts env tok t v st (k # rest) g =
     tts_attempts env tok t v st rest
       (if k < 4 then perform (Sleep 15) (perform (TtsPost k tok t v st) g)
        else perform (TtsPost k tok t v st) g)"
  by (cases "tts_reply env k") (simp_all add: Let_def)

lemma tts_attempts_None_iff:
  "fst (tts_attempts env tok t v st ks g) = None \<longleftrightarrow> (\<forall>k\<in>set ks. tts_failed (tts_reply env k))"
proof (induction ks arbitrary: g)
  case Nil
  then show ?case by simp
next
  case (Cons k ks)
  show ?case
  proof (cases "tts_failed (tts_reply env k)")
    case True
    then show ?thesis
      by (simp only: tts_attempts_failed_step Cons.IH) simp
  next
    case False
    then show ?thesis
      by (cases "tts_reply env k") (simp_all add: Let_def)
  qed
qed

lemma tts_attempts_all_failed:
  assumes "\<forall>k<5. tts_failed (tts_reply env k)"
  shows "tts_attempts env tok t v st [0..<5] g =
    (None, g\<lparr>effects := effects g @
       [TtsPost 0 tok t v st, Sleep 15, TtsPost 1 tok t v st, Sleep 15, TtsPost 2 tok t v st,
        Sleep 15, TtsPost 3 tok t v st, Sleep 15, TtsPost 4 tok t v st]\<rparr>)"
proof -
  from assms have f: "tts_failed (tts_reply env 0)" "tts_failed (tts_reply env 1)"
    "tts_failed (tts_reply env 2)" "tts_failed (tts_reply env 3)" "tts_failed (tts_reply env 4)"
    by simp_all
  show ?thesis
    unfolding range5
    by (simp only: tts_attempts_failed_step [OF f(1)] tts_attempts_failed_step [OF f(2)]
        tts_attempts_failed_step [OF f(3)] tts_attempts_failed_step [OF f(4)]
        tts_attempts_failed_step [OF f(5)] tts_attempts.simps(1))
      (simp add: perform_def)
qed

lemma firebase_attempts_effects:
  "firebase_attempts env acc ks g = (r, g') \<Longrightarrow>
   \<exists>pre. effects g' = effects g @ pre \<and>
         (\<forall>ev\<in>set pre. (\<exists>e p. ev = FirebasePost e p) \<or> ev = Sleep 3)"
proof (induction ks arbitrary: g)
  case Nil
  then show ?case by simp
next
  case (Cons k ks)
  let ?g1 = "perform (FirebasePost (email acc) (password acc)) g"
  let ?g2 = "if k < 3 - 1 then perform (Sleep 3) ?g1 else ?g1"
  have e1: "effects ?g1 = effects g @ [FirebasePost (email acc) (password acc)]"
    by (simp add: perform_def)
  have e2: "\<exists>pre. effects ?g2 = effects g @ pre \<and>
         (\<forall>ev\<in>set pre. (\<exists>e p. ev = FirebasePost e p) \<or> ev = Sleep 3)"
    by (simp add: perform_def)
  from Cons.prems consider
      (stop) "effects g' = effects ?g1"
    | (rec) "firebase_attempts env acc ks ?g2 = (r, g')"
    by (auto simp: Let_def split: auth_response.splits if_splits option.splits)
  then show ?case
  proof cases
    case stop
    with e1 show ?thesis by simp
  next
    case rec
    from Cons.IH [OF rec] obtain post where post: "effects g' = effects ?g2 @ post"
      "\<forall>ev\<in>set post. (\<exists>e p. ev = FirebasePost e p) \<or> ev = Sleep 3"
      by blast
    from e2 obtain pre where pre: "effects ?g2 = effects g @ pre"
      "\<forall>ev\<in>set pre. (\<exists>e p. ev = FirebasePost e p) \<or> ev = Sleep 3"
      by blast
    from post pre have "effects g' = effects g @ (pre @ post)" by simp
    moreover from post pre have "\<forall>ev\<in>set (pre @ post). (\<exists>e p. ev = FirebasePost e p) \<or> ev = Sleep 3"
      by auto
    ultimately show ?thesis by blast
  qed
qed

lemma get_firebase_token_effects:
  "get_firebase_token env g = (r, g') \<Longrightarrow>
   \<exists>pre. effects g' = effects g @ pre \<and>
         (\<forall>ev\<in>set pre. (\<exists>e p. ev = FirebasePost e p) \<or> ev = Sleep 3)"
proof -
  assume h: "get_firebase_token env g = (r, g')"
  then consider "g' = g" | acc where "firebase_attempts env acc [0..<3] g = (r, g')"
    by (auto simp: get_firebase_token_def split: if_splits sum.splits option.splits)
  then show ?thesis
  proof cases
    case 1
    then show ?thesis by simp
  next
    case 2
    then show ?thesis by (rule firebase_attempts_effects)
  qed
qed

lemma tts_attempts_effects:
  "tts_attempts env tok t v st ks g = (r, g') \<Longrightarrow>
   \<exists>post. effects g' = effects g @ post \<and>
          (\<forall>ev\<in>set post. ev = Sleep 15 \<or> (\<exists>k\<in>set ks. ev = TtsPost k tok t v st))"
proof (induction ks arbitrary: g)
  case Nil
  then show ?case by simp
next
  case (Cons k ks)
  let ?g1 = "perform (TtsPost k tok t v st) g"
  let ?g2 = "if k < 5 - 1 then perform (Sleep 15) ?g1 else ?g1"
  from Cons.prems consider
      (stop) "g' = ?g1"
    | (rec) "tts_attempts env tok t v st ks ?g2 = (r, g')"
    by (auto simp: Let_def split: tts_response.splits if_splits)
  then show ?case
  proof cases
    case stop
    then have "effects g' = effects g @ [TtsPost k tok t v st]"
      by (simp add: perform_def)
    then show ?thesis by simp
  next
    case rec
    from Cons.IH [OF rec] obtain post where post: "effects g' = effects ?g2 @ post"
      "\<forall>ev\<in>set post. ev = Sleep 15 \<or> (\<exists>j\<in>set ks. ev = TtsPost j tok t v st)"
      by blast
    have "\<exists>pre. effects ?g2 = effects g @ pre \<and>
        (\<forall>ev\<in>set pre. ev = Sleep 15 \<or> ev = TtsPost k tok t v st)"
      by (simp add: perform_def)
    then obtain pre where pre: "effects ?g2 = effects g @ pre"
      "\<forall>ev\<in>set pre. ev = Sleep 15 \<or> ev = TtsPost k tok t v st"
      by blast
    from post pre have "effects g' = effects g @ (pre @ post)" by simp
    moreover from post pre
    have "\<forall>ev\<in>set (pre @ post). ev = Sleep 15 \<or> (\<exists>j\<in>set (k # ks). ev = TtsPost j tok t v st)"
      by auto
    ultimately show ?thesis by blast
  qed
qed

lemma rotation_effects:
  "(if should_rotate_account g then rotate_account g else Inr g) = Inr g0 \<Longrightarrow>
   effects g0 = effects g"
  by (auto simp: rotate_account_def split: if_splits)

text \<open>The shape of a call: either it stops before the request, or it runs the retry loop.\<close>

lemma text_to_speech_v3_shape:
  assumes "text_to_speech_v3 env tx v ems g = (r, g')"
  shows "(g' = g \<and> (\<exists>e. r = Inl e)) \<or>
    (\<exists>g0 t. (if should_rotate_account g then rotate_account g else Inr g) = Inr g0 \<and>
        get_firebase_token env g0 = (t, g') \<and> \<not> returned_audio r) \<or>
    (\<exists>g0 tok g2 ab. (if should_rotate_account g then rotate_account g else Inr g) = Inr g0 \<and>
        get_firebase_token env g0 = (Inr (Some tok), g2) \<and> tok \<noteq> [] \<and>
        tts_attempts env tok tx v (tts_stability ems) [0..<5] (increment_tts_count g2) = (ab, g') \<and>
        r = Inr ab)"
proof (cases "if should_rotate_account g then rotate_account g else Inr g")
  case (Inl e)
  with assms have "g' = g" "r = Inl e" by (simp_all add: text_to_speech_v3_def)
  then show ?thesis by blast
next
  case (Inr g0)
  obtain t g2 where tok: "get_firebase_token env g0 = (t, g2)"
    by (cases "get_firebase_token env g0")
  show ?thesis
  proof (cases "\<exists>token. t = Inr (Some token) \<and> token \<noteq> []")
    case False
    with assms Inr tok have "g' = g2" "\<not> returned_audio r"
      by (auto simp: text_to_speech_v3_def split: sum.splits option.splits if_splits)
    with Inr tok show ?thesis by auto
  next
    case True
    then obtain token where t: "t = Inr (Some token)" "token \<noteq> []" by blast
    obtain ab g4 where att: "tts_attempts env token tx v (tts_stability ems) [0..<5]
        (increment_tts_count g2) = (ab, g4)"
      by (cases "tts_attempts env token tx v (tts_stability ems) [0..<5] (increment_tts_count g2)")
    with assms Inr tok t have "g' = g4" "r = Inr ab"
      by (simp_all add: text_to_speech_v3_def)
    with Inr tok t att show ?thesis by blast
  qed
qed

lemma requests_effects: "effects g' = effects g \<Longrightarrow> requests g' = requests g"
  by (simp add: requests_def)

text \<open>
  Claim C8.  A synthesis call that issues its request returns failure exactly when all
  five attempts fail (a status other than 200 or a request exception); it has then made
  five requests with a 15 second sleep between consecutive ones.  When the call for a
  dialogue segment of a mapped speaker returns failure, the loop makes one fallback call
  with stability 0.5, similarity boost 0.75, style 0 and speaker boost on, and nothing
  else; if that call raises, the segment places no clip and the loop goes on with the
  remaining segments from the unchanged timeline.
\<close>

theorem primary_retries_then_fallback:
  "(text_to_speech_v3 env tx voice_id emotions g = (r, g1) \<and> requests g1 = Suc (requests g) \<longrightarrow>
      (r = Inr None \<longleftrightarrow> (\<forall>k<5. tts_failed (tts_reply env k))) \<and>
      (r = Inr None \<longrightarrow>
         (\<exists>tok pre. effects g1 = effects g @ pre @
              [TtsPost 0 tok tx voice_id (tts_stability emotions), Sleep 15,
               TtsPost 1 tok tx voice_id (tts_stability emotions), Sleep 15,
               TtsPost 2 tok tx voice_id (tts_stability emotions), Sleep 15,
               TtsPost 3 tok tx voice_id (tts_stability emotions), Sleep 15,
               TtsPost 4 tok tx voice_id (tts_stability emotions)] \<and>
            (\<forall>ev\<in>set pre. (\<exists>e p. ev = FirebasePost e p) \<or> ev = Sleep 3)))) \<and>
   (seg_type seg = py ''dialogue'' \<and> VOICE_MAPPING (speaker seg) = Some voice \<and>
    text_to_speech_v3 env' (snd (extract_emotion_and_text (seg_text seg))) voice
      (Some (fst (extract_emotion_and_text (seg_text seg)))) (glob m) = (Inr None, g2) \<longrightarrow>
      glob (process_segment env' seg m) =
        perform (FallbackConvert voice (snd (extract_emotion_and_text (seg_text seg)))
                   (1 / 2) (3 / 4) 0 True) g2 \<and>
      (\<forall>e. fallback_reply env' = Inl e \<longrightarrow>
         process_segment env' seg m =
           m\<lparr>glob := perform (FallbackConvert voice (snd (extract_emotion_and_text (seg_text seg)))
                             (1 / 2) (3 / 4) 0 True) g2\<rparr> \<and>
         (envs i = env' \<longrightarrow>
            mix_segments envs i (seg # rest) m =
              mix_segments envs (Suc i) rest
                (m\<lparr>glob := perform (FallbackConvert voice
                      (snd (extract_emotion_and_text (seg_text seg))) (1 / 2) (3 / 4) 0 True) g2\<rparr>))))"
proof (intro conjI impI)
  assume h: "text_to_speech_v3 env tx voice_id emotions g = (r, g1) \<and> requests g1 = Suc (requests g)"
  then have call: "text_to_speech_v3 env tx voice_id emotions g = (r, g1)"
    and n: "requests g1 \<noteq> requests g"
    by simp_all
  from text_to_speech_v3_shape [OF call]
  have "\<exists>g0 tok g2 ab. (if should_rotate_account g then rotate_account g else Inr g) = Inr g0 \<and>
        get_firebase_token env g0 = (Inr (Some tok), g2) \<and> tok \<noteq> [] \<and>
        tts_attempts env tok tx voice_id (tts_stability emotions) [0..<5] (increment_tts_count g2)
          = (ab, g1) \<and> r = Inr ab"
  proof (elim disjE)
    assume "g1 = g \<and> (\<exists>e. r = Inl e)"
    with n show ?thesis by simp
  next
    assume "\<exists>g0 t. (if should_rotate_account g then rotate_account g else Inr g) = Inr g0 \<and>
        get_firebase_token env g0 = (t, g1) \<and> \<not> returned_audio r"
    then obtain g0 t where a: "(if should_rotate_account g then rotate_account g else Inr g) = Inr g0"
      and b: "get_firebase_token env g0 = (t, g1)"
      by blast
    from get_firebase_token_frame [OF b] have "requests g1 = requests g0" by simp
    also from rotation_effects [OF a] have "requests g0 = requests g" by (rule requests_effects)
    finally show ?thesis using n by simp
  qed
  then obtain g0 tok g2 ab where
    rot: "(if should_rotate_account g then rotate_account g else Inr g) = Inr g0"
    and tk: "get_firebase_token env g0 = (Inr (Some tok), g2)"
    and att: "tts_attempts env tok tx voice_id (tts_stability emotions) [0..<5]
        (increment_tts_count g2) = (ab, g1)"
    and r: "r = Inr ab"
    by blast
  from tts_attempts_None_iff [of env tok tx voice_id "tts_stability emotions" "[0..<5]"
      "increment_tts_count g2"] att
  have iff: "ab = None \<longleftrightarrow> (\<forall>k<5. tts_failed (tts_reply env k))"
    by auto
  with r show "r = Inr None \<longleftrightarrow> (\<forall>k<5. tts_failed (tts_reply env k))"
    by simp
  assume "r = Inr None"
  with r iff have "\<forall>k<5. tts_failed (tts_reply env k)" by simp
  from tts_attempts_all_failed [OF this, of tok tx voice_id "tts_stability emotions"
      "increment_tts_count g2"] att
  have e1: "effects g1 = effects g2 @
      [TtsPost 0 tok tx voice_id (tts_stability emotions), Sleep 15,
       TtsPost 1 tok tx voice_id (tts_stability emotions), Sleep 15,
       TtsPost 2 tok tx voice_id (tts_stability emotions), Sleep 15,
       TtsPost 3 tok tx voice_id (tts_stability emotions), Sleep 15,
       TtsPost 4 tok tx voice_id (tts_stability emotions)]"
    by (auto simp: increment_tts_count_def)
  from get_firebase_token_effects [OF tk] rotation_effects [OF rot]
  obtain pre where "effects g2 = effects g @ pre"
    "\<forall>ev\<in>set pre. (\<exists>e p. ev = FirebasePost e p) \<or> ev = Sleep 3"
    by auto
  with e1 show "\<exists>tok pre. effects g1 = effects g @ pre @
              [TtsPost 0 tok tx voice_id (tts_stability emotions), Sleep 15,
               TtsPost 1 tok tx voice_id (tts_stability emotions), Sleep 15,
               TtsPost 2 tok tx voice_id (tts_stability emotions), Sleep 15,
               TtsPost 3 tok tx voice_id (tts_stability emotions), Sleep 15,
               TtsPost 4 tok tx voice_id (tts_stability emotions)] \<and>
            (\<forall>ev\<in>set pre. (\<exists>e p. ev = FirebasePost e p) \<or> ev = Sleep 3)"
    by auto
next
  assume h: "seg_type seg = py ''dialogue'' \<and> VOICE_MAPPING (speaker seg) = Some voice \<and>
    text_to_speech_v3 env' (snd (extract_emotion_and_text (seg_text seg))) voice
      (Some (fst (extract_emotion_and_text (seg_text seg)))) (glob m) = (Inr None, g2)"
  then have v: "voice \<noteq> []" by (auto dest: VOICE_MAPPING_nonempty)
  from h v show g: "glob (process_segment env' seg m) =
        perform (FallbackConvert voice (snd (extract_emotion_and_text (seg_text seg)))
                   (1 / 2) (3 / 4) 0 True) g2"
    by (simp add: process_segment_def case_prod_beta truthy_def fallback_convert_def
        place_speech_def Let_def split: sum.splits)
  show "\<forall>e. fallback_reply env' = Inl e \<longrightarrow>
         process_segment env' seg m =
           m\<lparr>glob := perform (FallbackConvert voice (snd (extract_emotion_and_text (seg_text seg)))
                             (1 / 2) (3 / 4) 0 True) g2\<rparr> \<and>
         (envs i = env' \<longrightarrow>
            mix_segments envs i (seg # rest) m =
              mix_segments envs (Suc i) rest
                (m\<lparr>glob := perform (FallbackConvert voice
                      (snd (extract_emotion_and_text (seg_text seg))) (1 / 2) (3 / 4) 0 True) g2\<rparr>))"
    using h v
    by (simp add: process_segment_def case_prod_beta truthy_def fallback_convert_def)
qed

lemma host_segment_parse:
  "extract_emotion_and_text (seg_text host_segment) = ([py ''excited''], py ''hello'')"
  by (simp add: host_segment_def extract_emotion_and_text_def match_emotion_def isspace_def
      strip_def py_def)

lemma host_voice: "VOICE_MAPPING (speaker host_segment) = Some (py ''mgugV8tLa3KQE4mfYTw5'')"
  by (simp add: host_segment_def host_def VOICE_MAPPING_def)

lemma failing_call:
  "text_to_speech_v3 failing_env (py ''hello'') (py ''mgugV8tLa3KQE4mfYTw5'')
     (Some [py ''excited'']) (initial_globals three_accounts) = (Inr None, failed_globals)"
  by (simp add: call_eval failing_env_def three_accounts_def failed_globals_def Let_def)

theorem primary_retries_then_fallback_witness:
  "tts_failed (tts_reply failing_env 0) \<and> tts_failed (tts_reply failing_env 1) \<and>
   tts_failed (tts_reply failing_env 2) \<and> tts_failed (tts_reply failing_env 3) \<and>
   tts_failed (tts_reply failing_env 4) \<and>
   fallback_reply failing_env = Inl LibraryError \<and>
   requests failed_globals = Suc (requests (initial_globals three_accounts)) \<and>
   process_segment failing_env host_segment (initial_mixer (initial_globals three_accounts)) =
     (initial_mixer (initial_globals three_accounts))
       \<lparr>glob := perform (FallbackConvert (py ''mgugV8tLa3KQE4mfYTw5'') (py ''hello'')
                         (1 / 2) (3 / 4) 0 True) failed_globals\<rparr>"
proof -
  let ?m = "initial_mixer (initial_globals three_accounts)"
  have n: "requests failed_globals = Suc (requests (initial_globals three_accounts))"
    by (simp add: requests_def failed_globals_def initial_globals_def)
  have fb: "fallback_reply failing_env = Inl LibraryError"
    by (simp add: failing_env_def)
  have d: "seg_type host_segment = py ''dialogue''"
    by (simp add: host_segment_def)
  have call: "text_to_speech_v3 failing_env (snd (extract_emotion_and_text (seg_text host_segment)))
      (py ''mgugV8tLa3KQE4mfYTw5'') (Some (fst (extract_emotion_and_text (seg_text host_segment))))
      (glob ?m) = (Inr None, failed_globals)"
    by (simp add: host_segment_parse failing_call initial_mixer_def)
  note t = primary_retries_then_fallback [of failing_env "py ''hello''" "py ''mgugV8tLa3KQE4mfYTw5''"
      "Some [py ''excited'']" "initial_globals three_accounts" "Inr None" failed_globals
      host_segment "py ''mgugV8tLa3KQE4mfYTw5''" failing_env ?m failed_globals]
  from t [THEN conjunct1, rule_format, OF conjI [OF failing_call n], THEN conjunct1]
  have a: "\<forall>k<5. tts_failed (tts_reply failing_env k)" by simp
  from t [THEN conjunct2, rule_format, OF conjI [OF d conjI [OF host_voice call]],
      THEN conjunct2, rule_format, OF fb, THEN conjunct1]
  have "process_segment failing_env host_segment ?m =
     ?m\<lparr>glob := perform (FallbackConvert (py ''mgugV8tLa3KQE4mfYTw5'')
        (snd (extract_emotion_and_text (seg_text host_segment))) (1 / 2) (3 / 4) 0 True) failed_globals\<rparr>" .
  with a fb n show ?thesis
    by (simp add: host_segment_parse)
qed

text \<open>
  Claim C3.  For every list of emotion markers, also the empty one, and for the absent
  list, the stability is 0 if a marker is one of excited, dramatic, nervous; else 1 if a
  marker is one of whispers, serious, thoughtful; else 0.5.  The first check wins when
  both match.  Every request a synthesis call sends carries this stability.
\<close>

theorem tts_stability_rule:
  "tts_stability None = 1 / 2 \<and>
   tts_stability (Some es) =
     (if set es \<inter> {py ''excited'', py ''dramatic'', py ''nervous''} \<noteq> {} then 0
      else if set es \<inter> {py ''whispers'', py ''serious'', py ''thoughtful''} \<noteq> {} then 1
      else 1 / 2) \<and>
   (text_to_speech_v3 env tx voice_id emotions g = (r, g') \<longrightarrow>
      (\<exists>new. effects g' = effects g @ new \<and>
         (\<forall>ev\<in>set new. \<forall>k tok t v st.
            ev = TtsPost k tok t v st \<longrightarrow> st = tts_stability emotions)))"
proof (intro conjI impI)
  show "tts_stability None = 1 / 2"
    by (simp add: tts_stability_def truthy_def)
  show "tts_stability (Some es) =
     (if set es \<inter> {py ''excited'', py ''dramatic'', py ''nervous''} \<noteq> {} then 0
      else if set es \<inter> {py ''whispers'', py ''serious'', py ''thoughtful''} \<noteq> {} then 1
      else 1 / 2)"
    by (cases es) (auto simp: tts_stability_def truthy_def list_ex_iff)
next
  assume call: "text_to_speech_v3 env tx voice_id emotions g = (r, g')"
  from text_to_speech_v3_shape [OF call]
  show "\<exists>new. effects g' = effects g @ new \<and>
         (\<forall>ev\<in>set new. \<forall>k tok t v st.
            ev = TtsPost k tok t v st \<longrightarrow> st = tts_stability emotions)"
  proof (elim disjE exE conjE)
    assume "g' = g"
    then have "effects g' = effects g @ []" by simp
    then show ?thesis by (intro exI [of _ "[]"]) simp
  next
    fix g0 t
    assume a: "(if should_rotate_account g then rotate_account g else Inr g) = Inr g0"
      and b: "get_firebase_token env g0 = (t, g')"
    from get_firebase_token_effects [OF b] rotation_effects [OF a]
    obtain pre where "effects g' = effects g @ pre"
      "\<forall>ev\<in>set pre. (\<exists>e p. ev = FirebasePost e p) \<or> ev = Sleep 3"
      by auto
    then show ?thesis by (intro exI [of _ pre]) auto
  next
    fix g0 tok g2 ab
    assume a: "(if should_rotate_account g then rotate_account g else Inr g) = Inr g0"
      and b: "get_firebase_token env g0 = (Inr (Some tok), g2)"
      and c: "tts_attempts env tok tx voice_id (tts_stability emotions) [0..<5]
          (increment_tts_count g2) = (ab, g')"
    from get_firebase_token_effects [OF b] rotation_effects [OF a]
    obtain pre where pre: "effects g2 = effects g @ pre"
      "\<forall>ev\<in>set pre. (\<exists>e p. ev = FirebasePost e p) \<or> ev = Sleep 3"
      by auto
    from tts_attempts_effects [OF c]
    obtain post where post: "effects g' = effects g2 @ post"
      "\<forall>ev\<in>set post. ev = Sleep 15 \<or>
          (\<exists>k\<in>set [0..<5]. ev = TtsPost k tok tx voice_id (tts_stability emotions))"
      by (auto simp: increment_tts_count_def)
    from pre post have "effects g' = effects g @ (pre @ post)" by simp
    moreover from pre post have "\<forall>ev\<in>set (pre @ post). \<forall>k tok t v st.
            ev = TtsPost k tok t v st \<longrightarrow> st = tts_stability emotions"
      by auto
    ultimately show ?thesis by blast
  qed
qed

theorem tts_stability_rule_witness:
  "tts_stability (Some [py ''whispers'', py ''excited'']) = 0 \<and>
   (\<exists>new. effects failed_globals = effects (initial_globals three_accounts) @ new \<and>
      (\<forall>ev\<in>set new. \<forall>k tok t v st. ev = TtsPost k tok t v st \<longrightarrow> st = 0))"
proof -
  note t = tts_stability_rule [of "[py ''whispers'', py ''excited'']" failing_env "py ''hello''"
      "py ''mgugV8tLa3KQE4mfYTw5''" "Some [py ''excited'']" "initial_globals three_accounts"
      "Inr None" failed_globals]
  from t have a: "tts_stability (Some [py ''whispers'', py ''excited'']) = 0"
    by (simp add: py_def)
  from tts_stability_rule [of "[py ''excited'']"]
  have b: "tts_stability (Some [py ''excited'']) = 0"
    by (simp add: py_def)
  from t [THEN conjunct2, THEN conjunct2, rule_format, OF failing_call] a b show ?thesis
    by simp
qed

end
